theory Spec2Isabelle
  imports Complex_Main "HOL-Library.Multiset"
begin


section \<open>Query results (package api, as used by cmd/humioctl/search.go)\<close>

text \<open>
  An event is a Go \<^verbatim>\<open>map[string]interface{}\<close> decoded from JSON. The values are the
  scalars of the data model: null, booleans, numbers (a finite \<^verbatim>\<open>float64\<close>, kept as the
  rational it denotes, so that \<^verbatim>\<open><\<close> on floats is \<open><\<close> on \<open>rat\<close>) and strings.
  The event is an association list: its order is the order in which one
  \<^verbatim>\<open>for k := range e\<close> visits the keys, which the Go runtime chooses.
\<close>

datatype jvalue = JNull | JBool bool | JNum rat | JStr string

type_synonym event = "(string \<times> jvalue) list"

text \<open>\<^verbatim>\<open>e[k]\<close>: the value stored under the key; a missing key reads as nil.\<close>

definition index :: "event \<Rightarrow> string \<Rightarrow> jvalue" where
  "index e k = (case map_of e k of None \<Rightarrow> JNull | Some v \<Rightarrow> v)"

text \<open>The type assertions \<^verbatim>\<open>v.(string)\<close> and \<^verbatim>\<open>v.(float64)\<close> in their two-result form.\<close>

fun as_string :: "jvalue \<Rightarrow> string option" where
  "as_string (JStr s) = Some s"
| "as_string _ = None"

fun as_float64 :: "jvalue \<Rightarrow> rat option" where
  "as_float64 (JNum r) = Some r"
| "as_float64 _ = None"

record QueryResultMetadata =
  EventCount :: nat
  FieldOrder :: "string list"
  IsAggregate :: bool
  PollAfter :: int
  ProcessedBytes :: nat
  ProcessedEvents :: nat
  QueryStart :: nat
  QueryEnd :: nat
  TimeMillis :: nat
  TotalWork :: nat
  WorkDone :: nat

record QueryResult =
  Done :: bool
  Events :: "event list"
  Metadata :: QueryResultMetadata

section \<open>eventListPrinter: ordering and deduplication\<close>

text \<open>
  The comparison closure handed to \<^verbatim>\<open>sort.Slice\<close> in \<^verbatim>\<open>eventListPrinter.print\<close>,
  on the two events themselves. The cases are the source's, in its order.
\<close>

definition less_ts :: "event \<Rightarrow> event \<Rightarrow> bool" where
  "less_ts ei ej =
     (case (as_float64 (index ei ''@timestamp''), as_float64 (index ej ''@timestamp'')) of
        (Some tsI, Some tsJ) \<Rightarrow> tsI < tsJ
      | (_, None) \<Rightarrow> False
      | (None, _) \<Rightarrow> True)"

text \<open>
  \<^verbatim>\<open>sort.Slice\<close> is Go's library: it promises a permutation of the slice that is
  ordered by the comparison, and does not promise stability. \<open>sort_Slice_post\<close> is that
  promise; \<^verbatim>\<open>print\<close> below takes the sorting function as a parameter.
  For slices of at most twelve elements the library runs an insertion sort
  (\<^verbatim>\<open>insertionSortLessFunc\<close>: each element moves left while it is less than its
  left neighbour), which \<open>insertionSort\<close> models on the reversed prefix.
\<close>

definition sort_Slice_post :: "('a \<Rightarrow> 'a \<Rightarrow> bool) \<Rightarrow> 'a list \<Rightarrow> 'a list \<Rightarrow> bool" where
  "sort_Slice_post lt xs ys \<longleftrightarrow>
     mset ys = mset xs \<and> sorted_wrt (\<lambda>a b. \<not> lt b a) ys"

fun sift_left :: "('a \<Rightarrow> 'a \<Rightarrow> bool) \<Rightarrow> 'a \<Rightarrow> 'a list \<Rightarrow> 'a list" where
  "sift_left lt x [] = [x]"
| "sift_left lt x (y # ys) = (if lt x y then y # sift_left lt x ys else x # y # ys)"

definition insertionSort :: "('a \<Rightarrow> 'a \<Rightarrow> bool) \<Rightarrow> 'a list \<Rightarrow> 'a list" where
  "insertionSort lt xs = rev (foldl (\<lambda>acc x. sift_left lt x acc) [] xs)"

record eventListPrinter =
  printedIds :: "string \<rightharpoonup> bool"
  printFields :: "string list"
  fmt :: string

text \<open>\<^verbatim>\<open>p.printedIds[id]\<close>: a missing key of a \<^verbatim>\<open>map[string]bool\<close> reads as false.\<close>

definition seen :: "(string \<rightharpoonup> bool) \<Rightarrow> string \<Rightarrow> bool" where
  "seen ids k = (case ids k of None \<Rightarrow> False | Some b \<Rightarrow> b)"

definition event_id :: "event \<Rightarrow> string option" where
  "event_id e = as_string (index e ''@id'')"

text \<open>
  The second loop of \<^verbatim>\<open>print\<close>: it returns the updated \<^verbatim>\<open>printedIds\<close> and the events
  handed to \<^verbatim>\<open>printEventFunc\<close>, in the order of the calls.
\<close>

fun print_loop :: "(string \<rightharpoonup> bool) \<Rightarrow> event list \<Rightarrow> (string \<rightharpoonup> bool) \<times> event list" where
  "print_loop ids [] = (ids, [])"
| "print_loop ids (e # es) =
     (case event_id e of
        Some i \<Rightarrow>
          if \<not> seen ids i
          then (let (ids', out) = print_loop (ids(i \<mapsto> True)) es in (ids', e # out))
          else print_loop ids es
      | None \<Rightarrow> (let (ids', out) = print_loop ids es in (ids', e # out)))"

text \<open>\<^verbatim>\<open>eventListPrinter.print\<close>, up to the formatting of each emitted event.\<close>

definition print_events ::
  "(event list \<Rightarrow> event list) \<Rightarrow> (string \<rightharpoonup> bool) \<Rightarrow> QueryResult \<Rightarrow> (string \<rightharpoonup> bool) \<times> event list" where
  "print_events sorter ids result = print_loop ids (sorter (Events result))"

text \<open>One session: the printer is fed the snapshots one after the other.\<close>

fun print_session ::
  "(event list \<Rightarrow> event list) \<Rightarrow> (string \<rightharpoonup> bool) \<Rightarrow> QueryResult list \<Rightarrow> (string \<rightharpoonup> bool) \<times> event list" where
  "print_session sorter ids [] = (ids, [])"
| "print_session sorter ids (r # rs) =
     (let (ids1, out1) = print_events sorter ids r;
          (ids2, out2) = print_session sorter ids1 rs
      in (ids2, out1 @ out2))"

text \<open>The numeric \<^verbatim>\<open>@timestamp\<close> of an event, if it has one (used to state the ordering).\<close>

definition timestamp :: "event \<Rightarrow> rat option" where
  "timestamp e = as_float64 (index e ''@timestamp'')"

text \<open>A snapshot that carries the given events and otherwise zero values.\<close>

definition zero_Metadata :: QueryResultMetadata where
  "zero_Metadata = \<lparr>EventCount = 0, FieldOrder = [], IsAggregate = False, PollAfter = 0,
     ProcessedBytes = 0, ProcessedEvents = 0, QueryStart = 0, QueryEnd = 0, TimeMillis = 0,
     TotalWork = 0, WorkDone = 0\<rparr>"

definition snapshot_of :: "event list \<Rightarrow> QueryResult" where
  "snapshot_of es = \<lparr>Done = True, Events = es, Metadata = zero_Metadata\<rparr>"

section \<open>queryJobPoller\<close>

text \<open>
  Errors that reach \<^verbatim>\<open>newSearchCmd\<close>: \<^verbatim>\<open>context.Canceled\<close>, an \<^verbatim>\<open>api.QueryError\<close> with
  its message, and any other error with its message.
\<close>

datatype error = Canceled | QueryError string | OtherError string

text \<open>
  Instants are integers: nanoseconds on the process clock. A \<^verbatim>\<open>time.Duration\<close> is an
  \<^verbatim>\<open>int64\<close> count of nanoseconds, so the product in
  \<^verbatim>\<open>time.Duration(result.Metadata.PollAfter) * time.Millisecond\<close> wraps around, and
  \<^verbatim>\<open>Time.Sub\<close> (behind \<^verbatim>\<open>time.Until\<close>) saturates at the least and the greatest duration.
  The declaration of \<^verbatim>\<open>PollAfter\<close> is not among the sources; it is an integer here, and the
  conversion to \<^verbatim>\<open>time.Duration\<close> is \<open>wrap64\<close>.
\<close>

definition minDuration :: int where
  "minDuration = - (2 ^ 63)"

definition maxDuration :: int where
  "maxDuration = 2 ^ 63 - 1"

definition wrap64 :: "int \<Rightarrow> int" where
  "wrap64 x = (x + 2 ^ 63) mod 2 ^ 64 - 2 ^ 63"

definition Millisecond :: int where
  "Millisecond = 1000000"

definition poll_delay :: "int \<Rightarrow> int" where
  "poll_delay p = wrap64 (wrap64 p * Millisecond)"

definition time_Sub :: "int \<Rightarrow> int \<Rightarrow> int" where
  "time_Sub t u = max minDuration (min maxDuration (t - u))"

definition time_Until :: "int \<Rightarrow> int \<Rightarrow> int" where
  "time_Until t now_t = time_Sub t now_t"

record queryJobPoller =
  repository :: string
  id' :: string
  nextPoll :: int

text \<open>
  What one call of \<^verbatim>\<open>WaitAndPollContext\<close> meets: the instant at which it starts, by how
  much the timer of \<^verbatim>\<open>time.After\<close> fires late, the instant at which \<^verbatim>\<open>ctx.Done()\<close> becomes
  ready (if the context is ever cancelled), the branch \<^verbatim>\<open>select\<close> takes when both
  channels are ready at once (Go picks one at random), what \<^verbatim>\<open>PollContext\<close> returns, and
  how long after the request \<^verbatim>\<open>time.Now()\<close> is read.
\<close>

record wait_env =
  now :: int
  lag :: nat
  cancelAt :: "int option"
  pick_done :: bool
  response :: "QueryResult \<times> error option"
  latency :: nat

datatype select_case = TimerFired int | CtxDone int

definition select_wait :: "wait_env \<Rightarrow> queryJobPoller \<Rightarrow> select_case" where
  "select_wait env q =
     (let fire = now env + max 0 (time_Until (nextPoll q) (now env)) + int (lag env)
      in case cancelAt env of
           None \<Rightarrow> TimerFired fire
         | Some c \<Rightarrow>
             (let c' = max c (now env)
              in if c' < fire then CtxDone c'
                 else if fire < c' then TimerFired fire
                 else if pick_done env then CtxDone c' else TimerFired fire))"

text \<open>\<^verbatim>\<open>api.QueryResult{}\<close>, the zero value.\<close>

definition zero_QueryResult :: QueryResult where
  "zero_QueryResult = \<lparr>Done = False, Events = [], Metadata = zero_Metadata\<rparr>"

text \<open>
  The result of one call: the poller afterwards, the pair the call returns, the instant
  at which \<^verbatim>\<open>PollContext\<close> was called (if it was), and the instant of the return.
\<close>

record poll_outcome =
  poller_after :: queryJobPoller
  returned :: "QueryResult \<times> error option"
  requested_at :: "int option"
  returned_at :: int

definition WaitAndPollContext :: "wait_env \<Rightarrow> queryJobPoller \<Rightarrow> poll_outcome" where
  "WaitAndPollContext env q =
     (case select_wait env q of
        CtxDone t \<Rightarrow>
          \<lparr>poller_after = q, returned = (zero_QueryResult, Some Canceled),
           requested_at = None, returned_at = t\<rparr>
      | TimerFired t \<Rightarrow>
          (case response env of
             (result, Some err) \<Rightarrow>
               \<lparr>poller_after = q, returned = (result, Some err),
                requested_at = Some t, returned_at = t + int (latency env)\<rparr>
           | (result, None) \<Rightarrow>
               \<lparr>poller_after =
                  q\<lparr>nextPoll := t + int (latency env) + poll_delay (PollAfter (Metadata result))\<rparr>,
                returned = (result, None),
                requested_at = Some t, returned_at = t + int (latency env)\<rparr>))"

text \<open>
  Concrete calls: a poller whose next poll is due, a poll answered with
  \<^verbatim>\<open>PollAfter = 500\<close>, a call cancelled three microseconds into its wait, and a poll that
  fails.
\<close>

definition poller0 :: queryJobPoller where
  "poller0 = \<lparr>repository = ''repo'', id' = ''job'', nextPoll = 0\<rparr>"

definition snapshot500 :: QueryResult where
  "snapshot500 = \<lparr>Done = False, Events = [], Metadata = zero_Metadata\<lparr>PollAfter := 500\<rparr>\<rparr>"

definition env_answered :: wait_env where
  "env_answered = \<lparr>now = 1000, lag = 0, cancelAt = None, pick_done = False,
     response = (snapshot500, None), latency = 7\<rparr>"

definition env_cancelled :: wait_env where
  "env_cancelled = \<lparr>now = 2000, lag = 0, cancelAt = Some 5000, pick_done = False,
     response = (snapshot500, None), latency = 7\<rparr>"

definition env_failed :: wait_env where
  "env_failed = \<lparr>now = 1000, lag = 0, cancelAt = None, pick_done = False,
     response = (zero_QueryResult, Some (OtherError ''connection refused'')), latency = 7\<rparr>"

section \<open>Generic rendering of a value\<close>

text \<open>
  What the code takes from Go's libraries and from packages of the repository that are
  not among the sources, as parameters: the text of a \<^verbatim>\<open>float64\<close> under \<^verbatim>\<open>fmt.Sprint\<close>, the
  offset of \<^verbatim>\<open>time.Local\<close> (seconds east of UTC) at a Unix second, the rounding of a
  rational to the nearest \<^verbatim>\<open>float64\<close>, what a \<^verbatim>\<open>float64\<close> converts to as \<^verbatim>\<open>int64\<close> when it is
  out of range, \<^verbatim>\<open>prompt.AddSISuffix\<close>, the verb \<^verbatim>\<open>%.1f\<close>, and the JSON encodings of a
  nonzero \<^verbatim>\<open>float64\<close> and of a string.
\<close>

record runtime =
  Sprint_float :: "rat \<Rightarrow> string"
  zone_offset :: "int \<Rightarrow> int"
  round_float64 :: "rat \<Rightarrow> rat"
  int64_out_of_range :: "rat \<Rightarrow> int"
  AddSISuffix :: "rat \<Rightarrow> bool \<Rightarrow> rat \<times> string"
  Sprintf_1f :: "rat \<Rightarrow> string"
  json_float :: "rat \<Rightarrow> string"
  json_string :: "string \<Rightarrow> string"

text \<open>\<^verbatim>\<open>fmt.Sprint(v)\<close> for one value of an event.\<close>

fun Sprint :: "runtime \<Rightarrow> jvalue \<Rightarrow> string" where
  "Sprint rt JNull = ''<nil>''"
| "Sprint rt (JBool b) = (if b then ''true'' else ''false'')"
| "Sprint rt (JNum r) = Sprint_float rt r"
| "Sprint rt (JStr s) = s"

definition newline :: string where
  "newline = [CHR 0x0A]"

section \<open>aggregatePrinter\<close>

record aggregatePrinter =
  columns :: "string list"
  noWrap :: bool

definition newAggregatePrinter :: "bool \<Rightarrow> aggregatePrinter" where
  "newAggregatePrinter nw = \<lparr>columns = [], noWrap = nw\<rparr>"

text \<open>
  The inner loop of \<^verbatim>\<open>aggregatePrinter.print\<close> over the keys of one event, and the outer
  loop over the events; \<open>f\<close> is the slice of columns and \<open>m\<close> the map of the keys seen in
  this call.
\<close>

fun scan_keys :: "string list \<Rightarrow> (string \<rightharpoonup> bool) \<Rightarrow> string list \<Rightarrow> string list \<times> (string \<rightharpoonup> bool)" where
  "scan_keys f m [] = (f, m)"
| "scan_keys f m (k # ks) =
     (if \<not> seen m k then scan_keys (f @ [k]) (m(k \<mapsto> True)) ks else scan_keys f m ks)"

fun scan_events :: "string list \<Rightarrow> (string \<rightharpoonup> bool) \<Rightarrow> event list \<Rightarrow> string list \<times> (string \<rightharpoonup> bool)" where
  "scan_events f m [] = (f, m)"
| "scan_events f m (e # es) =
     (let (f', m') = scan_keys f m (map fst e) in scan_events f' m' es)"

definition select_columns :: "aggregatePrinter \<Rightarrow> QueryResult \<Rightarrow> string list" where
  "select_columns p result =
     (if length (FieldOrder (Metadata result)) > 0 then FieldOrder (Metadata result)
      else fst (scan_events (columns p) Map.empty (Events result)))"

text \<open>
  What one call writes: nothing, the bare value and a newline, or a table handed to
  \<^verbatim>\<open>tablewriter\<close> (header, rows, and whether long cells are wrapped).
\<close>

datatype table_output = NoOutput | Scalar string | Table "string list" "string list list" bool

definition aggregatePrinter_print ::
  "runtime \<Rightarrow> aggregatePrinter \<Rightarrow> QueryResult \<Rightarrow> aggregatePrinter \<times> table_output" where
  "aggregatePrinter_print rt p result =
     (let cols = select_columns p result; p' = p\<lparr>columns := cols\<rparr>
      in if length cols = 0 then (p', NoOutput)
         else if length cols = 1 \<and> length (Events result) = 1
         then (p', Scalar (Sprint rt (index (Events result ! 0) (cols ! 0)) @ newline))
         else (p', Table cols
                 (map (\<lambda>e. map (\<lambda>i. case map_of e i of Some v \<Rightarrow> Sprint rt v | None \<Rightarrow> [])
                    cols) (Events result))
                 (\<not> noWrap p)))"

section \<open>The search command\<close>

text \<open>
  The flags the control flow of \<^verbatim>\<open>newSearchCmd\<close> reads, and what the command does that
  can be observed: the progress bar is created, updated and finished, a JSON progress
  line is printed, the printer (aggregate or event list) is called, the query job is
  deleted, a message goes to the error stream.
\<close>

record flags =
  live :: bool
  noProgress :: bool
  jsonProgress :: bool

datatype action =
    BarStart
  | BarUpdate QueryResult
  | BarFinish
  | JsonProgress QueryResult
  | PrinterPrint bool QueryResult
  | DeleteJob string
  | PrintErr string

text \<open>
  The results of the successive calls of \<^verbatim>\<open>WaitAndPollContext\<close> are given as a list.
  A loop that asks for one more than the list holds is still running: its result is
  \<open>Exhausted\<close>, and the session's result is \<open>None\<close>.
\<close>

type_synonym polls = "(QueryResult \<times> error option) list"

datatype 'a loop_end = Exhausted | Failed error | Finished 'a

text \<open>The loop \<^verbatim>\<open>for !result.Done\<close>.\<close>

fun until_done ::
  "bool \<Rightarrow> bool \<Rightarrow> QueryResult \<Rightarrow> polls \<Rightarrow> action list \<times> (QueryResult \<times> polls) loop_end" where
  "until_done progress json result ps =
     (if Done result then ([], Finished (result, ps))
      else
        (let acts = (if progress then [BarUpdate result] else []) @
                    (if json then [JsonProgress result] else [])
         in case ps of
              [] \<Rightarrow> (acts, Exhausted)
            | (r, Some err) # rest \<Rightarrow> (acts, Failed err)
            | (r, None) # rest \<Rightarrow>
                (let (acts', e) = until_done progress json r rest in (acts @ acts', e))))"

text \<open>The loop of the live mode.\<close>

fun live_loop :: "bool \<Rightarrow> polls \<Rightarrow> action list \<times> error option option" where
  "live_loop agg [] = ([], None)"
| "live_loop agg ((result, Some err) # rest) = ([], Some (Some err))"
| "live_loop agg ((result, None) # rest) =
     (let (acts, r) = live_loop agg rest in (PrinterPrint agg result # acts, r))"

text \<open>
  The closure that \<^verbatim>\<open>Run\<close> calls, with the deferred deletion of the job. \<open>created\<close> is
  what \<^verbatim>\<open>QueryJobs().Create\<close> returned. The result is \<open>Some err\<close> when the closure
  returns \<open>err\<close> (\<open>None\<close> for nil).
\<close>

definition search_session :: "flags \<Rightarrow> error + string \<Rightarrow> polls \<Rightarrow> action list \<times> error option option" where
  "search_session fl created ps =
     (let noProg = (noProgress fl \<or> jsonProgress fl); json = jsonProgress fl
      in case created of
           Inl err \<Rightarrow> ([], Some (Some err))
         | Inr jid \<Rightarrow>
             (let start = (if \<not> noProg then [BarStart] else []);
                  (acts, r) =
                    (case ps of
                       [] \<Rightarrow> ([], None)
                     | (result, Some err) # rest \<Rightarrow> ([], Some (Some err))
                     | (result, None) # rest \<Rightarrow>
                         (let agg = IsAggregate (Metadata result)
                          in case until_done (\<not> noProg) json result rest of
                               (a1, Exhausted) \<Rightarrow> (a1, None)
                             | (a1, Failed err) \<Rightarrow> (a1, Some (Some err))
                             | (a1, Finished (final, rest')) \<Rightarrow>
                                 (let a2 = (if \<not> noProg then [BarUpdate final, BarFinish] else []) @
                                           (if json then [JsonProgress final] else []) @
                                           (if \<not> json then [PrinterPrint agg final] else [])
                                  in if live fl
                                     then (let (a3, r3) = live_loop agg rest' in (a1 @ a2 @ a3, r3))
                                     else (a1 @ a2, Some None))))
              in (start @ acts @ (case r of None \<Rightarrow> [] | Some x \<Rightarrow> [DeleteJob jid]), r)))"

text \<open>
  Modelled from the spec: \<^verbatim>\<open>exitOnError\<close> is not among the sources. For an error it
  prints a message and the process exits with a non-zero status (1 here); for nil it
  does nothing and the command goes on.
\<close>

fun error_text :: "error \<Rightarrow> string" where
  "error_text Canceled = ''context canceled''"
| "error_text (QueryError m) = m"
| "error_text (OtherError m) = m"

definition exitOnError :: "error option \<Rightarrow> string \<Rightarrow> action list \<times> nat option" where
  "exitOnError err message =
     (case err of
        None \<Rightarrow> ([], None)
      | Some e \<Rightarrow> ([PrintErr (message @ '': '' @ error_text e)], Some 1))"

text \<open>
  \<^verbatim>\<open>Run\<close>: the actions and the exit status of the process, \<open>None\<close> while the session is
  still running. When \<^verbatim>\<open>Run\<close> returns, the command ends with status 0.
\<close>

definition Run :: "flags \<Rightarrow> error + string \<Rightarrow> polls \<Rightarrow> action list \<times> nat option" where
  "Run fl created ps =
     (case search_session fl created ps of
        (acts, None) \<Rightarrow> (acts, None)
      | (acts, Some err) \<Rightarrow>
          (let err1 = (if err = Some Canceled then None else err)
           in case err1 of
                Some (QueryError m) \<Rightarrow>
                  (acts @ [PrintErr (''There was an error in your query string:'' @ newline @
                     newline @ m @ newline)], Some 1)
              | _ \<Rightarrow>
                  (case exitOnError err1 ''error running search'' of
                     (msgs, Some code) \<Rightarrow> (acts @ msgs, Some code)
                   | (msgs, None) \<Rightarrow> (acts @ msgs, Some 0))))"

text \<open>Concrete sessions and a concrete runtime for the examples.\<close>

definition flags0 :: flags where
  "flags0 = \<lparr>live = False, noProgress = False, jsonProgress = False\<rparr>"

definition live_snapshot :: QueryResult where
  "live_snapshot = snapshot_of [[(''@rawstring'', JStr ''hello'')]]"

definition runtime0 :: runtime where
  "runtime0 = \<lparr>Sprint_float = (\<lambda>r. ''1''), zone_offset = (\<lambda>t. 0), round_float64 = (\<lambda>r. r),
     int64_out_of_range = (\<lambda>r. - (2 ^ 63)), AddSISuffix = (\<lambda>r b. (r, [])),
     Sprintf_1f = (\<lambda>r. ''1.0''), json_float = (\<lambda>r. ''1''),
     json_string = (\<lambda>s. [CHR 0x22] @ s @ [CHR 0x22])\<rparr>"

section \<open>Progress reporting\<close>

text \<open>
  A \<^verbatim>\<open>float64\<close> that is either NaN or finite (the rational it denotes). The conversions
  from \<^verbatim>\<open>uint64\<close>, the division and the multiplication each round to the nearest
  \<^verbatim>\<open>float64\<close>; the results stay far below the greatest finite value.
\<close>

datatype float64 = NaN | Fin rat

definition throughput :: "runtime \<Rightarrow> nat \<Rightarrow> nat \<Rightarrow> rat" where
  "throughput rt processed millis =
     round_float64 rt
       (round_float64 rt (round_float64 rt (of_nat processed) / round_float64 rt (of_nat millis))
          * 1000)"

record queryResultProgressBar =
  epsValue :: float64
  bpsValue :: float64
  hits :: nat
  bar :: "nat \<times> nat"

definition newQueryResultProgressBar :: queryResultProgressBar where
  "newQueryResultProgressBar = \<lparr>epsValue = NaN, bpsValue = NaN, hits = 0, bar = (0, 0)\<rparr>"

definition Update :: "runtime \<Rightarrow> queryResultProgressBar \<Rightarrow> QueryResult \<Rightarrow> queryResultProgressBar" where
  "Update rt b result =
     (let b1 = (if TimeMillis (Metadata result) > 0
                then b\<lparr>epsValue := Fin (throughput rt (ProcessedEvents (Metadata result))
                                         (TimeMillis (Metadata result))),
                       bpsValue := Fin (throughput rt (ProcessedBytes (Metadata result))
                                         (TimeMillis (Metadata result)))\<rparr>
                else b)
      in b1\<lparr>hits := EventCount (Metadata result),
             bar := (WorkDone (Metadata result), TotalWork (Metadata result))\<rparr>)"

definition additionalInfoEps :: "runtime \<Rightarrow> queryResultProgressBar \<Rightarrow> string" where
  "additionalInfoEps rt b =
     (case epsValue b of
        Fin v \<Rightarrow> (let (v', suffix) = AddSISuffix rt v False
                  in Sprintf_1f rt v' @ '' '' @ suffix @ '' events/s'')
      | NaN \<Rightarrow> [])"

definition additionalInfoBps :: "runtime \<Rightarrow> queryResultProgressBar \<Rightarrow> string" where
  "additionalInfoBps rt b =
     (case bpsValue b of
        Fin v \<Rightarrow> (let (v', suffix) = AddSISuffix rt v True
                  in Sprintf_1f rt v' @ '' '' @ suffix @ ''B/s'')
      | NaN \<Rightarrow> [])"

text \<open>Decimal digits of an unsigned and of a signed integer.\<close>

fun show_nat :: "nat \<Rightarrow> string" where
  "show_nat n =
     (if n < 10 then [''0123456789'' ! n]
      else show_nat (n div 10) @ [''0123456789'' ! (n mod 10)])"

definition show_int :: "int \<Rightarrow> string" where
  "show_int i = (if i < 0 then ''-'' @ show_nat (nat (- i)) else show_nat (nat i))"

text \<open>
  The struct \<^verbatim>\<open>queryResultProgressJson\<close> (its fields carry a prime here, several share
  their names with the metadata) and \<^verbatim>\<open>json.Marshal\<close> of it: every field is written, in
  the order of the declaration, under the name of its tag. A \<^verbatim>\<open>float64\<close> zero is written
  \<^verbatim>\<open>0\<close>.
\<close>

record queryResultProgressJson =
  Timestamp' :: int
  StartMillis' :: int
  Repo' :: string
  QueryString' :: string
  Start' :: nat
  End' :: nat
  TotalWork' :: nat
  WorkDone' :: nat
  TimeMillis' :: nat
  EpsValue' :: rat
  BpsValue' :: rat
  EventCount' :: nat
  Done' :: bool

definition quoted :: "string \<Rightarrow> string" where
  "quoted s = [CHR 0x22] @ s @ [CHR 0x22]"

definition encode_float :: "runtime \<Rightarrow> rat \<Rightarrow> string" where
  "encode_float rt v = (if v = 0 then ''0'' else json_float rt v)"

definition json_Marshal :: "runtime \<Rightarrow> queryResultProgressJson \<Rightarrow> string" where
  "json_Marshal rt j =
     ''{'' @ quoted ''timestamp'' @ '':'' @ show_int (Timestamp' j) @
     '','' @ quoted ''startMillis'' @ '':'' @ show_int (StartMillis' j) @
     '','' @ quoted ''repo'' @ '':'' @ json_string rt (Repo' j) @
     '','' @ quoted ''queryString'' @ '':'' @ json_string rt (QueryString' j) @
     '','' @ quoted ''start'' @ '':'' @ show_nat (Start' j) @
     '','' @ quoted ''end'' @ '':'' @ show_nat (End' j) @
     '','' @ quoted ''totalWork'' @ '':'' @ show_nat (TotalWork' j) @
     '','' @ quoted ''workDone'' @ '':'' @ show_nat (WorkDone' j) @
     '','' @ quoted ''timeMillis'' @ '':'' @ show_nat (TimeMillis' j) @
     '','' @ quoted ''epsValue'' @ '':'' @ encode_float rt (EpsValue' j) @
     '','' @ quoted ''bpsValue'' @ '':'' @ encode_float rt (BpsValue' j) @
     '','' @ quoted ''eventCount'' @ '':'' @ show_nat (EventCount' j) @
     '','' @ quoted ''done'' @ '':'' @ (if Done' j then ''true'' else ''false'') @ ''}''"

text \<open>
  \<^verbatim>\<open>printQueryResultProgressJson\<close>; \<open>now_ms\<close> is what \<^verbatim>\<open>time.Now().UnixMilli()\<close> reads. The
  result is \<open>None\<close> where \<^verbatim>\<open>args[0]\<close> or \<^verbatim>\<open>args[1]\<close> would panic. The two throughput variables
  start as the zero value of \<^verbatim>\<open>float64\<close>.
\<close>

definition progress_record ::
  "runtime \<Rightarrow> int \<Rightarrow> QueryResult \<Rightarrow> string list \<Rightarrow> int \<Rightarrow> queryResultProgressJson" where
  "progress_record rt now_ms result args startMillis =
     (let (eps, bps) =
        (if TimeMillis (Metadata result) > 0
         then (throughput rt (ProcessedEvents (Metadata result)) (TimeMillis (Metadata result)),
               throughput rt (ProcessedBytes (Metadata result)) (TimeMillis (Metadata result)))
         else (0, 0))
      in \<lparr>Timestamp' = now_ms, StartMillis' = startMillis, Repo' = args ! 0,
          QueryString' = args ! 1, Start' = QueryStart (Metadata result),
          End' = QueryEnd (Metadata result), TotalWork' = TotalWork (Metadata result),
          WorkDone' = WorkDone (Metadata result), TimeMillis' = TimeMillis (Metadata result),
          EpsValue' = eps, BpsValue' = bps, EventCount' = EventCount (Metadata result),
          Done' = Done result\<rparr>)"

definition printQueryResultProgressJson ::
  "runtime \<Rightarrow> int \<Rightarrow> QueryResult \<Rightarrow> string list \<Rightarrow> int \<Rightarrow> string option" where
  "printQueryResultProgressJson rt now_ms result args startMillis =
     (if length args < 2 then None
      else Some (json_Marshal rt (progress_record rt now_ms result args startMillis)))"

text \<open>A snapshot after two seconds of work: 4000 events and 8000 bytes processed.\<close>

definition snapshot_busy :: QueryResult where
  "snapshot_busy = \<lparr>Done = False, Events = [],
     Metadata = zero_Metadata\<lparr>TimeMillis := 2000, ProcessedEvents := 4000,
       ProcessedBytes := 8000\<rparr>\<rparr>"

section \<open>eventListPrinter: the format string\<close>

text \<open>
  The regular expression \<^verbatim>\<open>(\{[^\}]+\})\<close> at the start of a string: an opening brace,
  the longest non-empty run of characters other than the closing brace, and a closing
  brace. The result is the text between the braces and what follows the match.
\<close>

definition match_here :: "string \<Rightarrow> (string \<times> string) option" where
  "match_here s =
     (case s of
        [] \<Rightarrow> None
      | c # cs \<Rightarrow>
          (let body = takeWhile (\<lambda>x. x \<noteq> CHR ''}'') cs;
               rest = dropWhile (\<lambda>x. x \<noteq> CHR ''}'') cs
           in if c = CHR ''{'' \<and> body \<noteq> [] \<and> rest \<noteq> [] then Some (body, tl rest) else None))"

text \<open>
  The callback of \<^verbatim>\<open>ReplaceAllStringFunc\<close>: the field is what stands before the first colon
  and the argument what stands after it (\<^verbatim>\<open>strings.SplitN(field, ":", 2)\<close>).
\<close>

definition split_field :: "string \<Rightarrow> string \<times> string" where
  "split_field f =
     (if CHR '':'' \<in> set f
      then (takeWhile (\<lambda>x. x \<noteq> CHR '':'') f, tl (dropWhile (\<lambda>x. x \<noteq> CHR '':'') f))
      else (f, []))"

lemma match_here_shorter: "match_here s = Some (body, rest) \<Longrightarrow> length rest < length s"
proof (cases s)
  case Nil
  then show "match_here s = Some (body, rest) \<Longrightarrow> length rest < length s"
    by (simp add: match_here_def)
next
  case (Cons c cs)
  have "length (tl (dropWhile (\<lambda>x. x \<noteq> CHR ''}'') cs)) \<le> length cs"
    using length_dropWhile_le [of "\<lambda>x. x \<noteq> CHR ''}''" cs] by simp
  then show "match_here s = Some (body, rest) \<Longrightarrow> length rest < length s"
    using Cons by (auto simp: match_here_def Let_def split: if_splits)
qed

text \<open>
  \<^verbatim>\<open>re.ReplaceAllStringFunc(fmt, ...)\<close>: the matches are taken from left to right, each is
  replaced by \<^verbatim>\<open>"%" + arg + "s"\<close> and its field is appended to \<^verbatim>\<open>printFields\<close>; the text
  between the matches is copied.
\<close>

function replace_all :: "string \<Rightarrow> string \<times> string list" where
  "replace_all [] = ([], [])"
| "replace_all (c # cs) =
     (case match_here (c # cs) of
        Some (body, rest) \<Rightarrow>
          (let (field, arg) = split_field body; (out, fields) = replace_all rest
           in (''%'' @ arg @ ''s'' @ out, field # fields))
      | None \<Rightarrow> (let (out, fields) = replace_all cs in (c # out, fields)))"
  by pat_completeness auto
termination
  by (relation "measure length") (auto dest: match_here_shorter)

definition newEventListPrinter :: "string \<Rightarrow> eventListPrinter" where
  "newEventListPrinter template =
     (let (f, fields) = replace_all template
      in \<lparr>printedIds = Map.empty, printFields = fields, fmt = f\<rparr>)"

section \<open>eventListPrinter: rendering one event\<close>

text \<open>
  The conversion \<^verbatim>\<open>int64(fv)\<close> truncates towards zero; Go leaves the result open when the
  value is out of range. Go's \<^verbatim>\<open>/\<close> and \<^verbatim>\<open>%\<close> on integers truncate towards zero as well.
\<close>

definition int64_of_float64 :: "runtime \<Rightarrow> rat \<Rightarrow> int" where
  "int64_of_float64 rt fv =
     (let t = (if fv < 0 then \<lceil>fv\<rceil> else \<lfloor>fv\<rfloor>)
      in if - (2 ^ 63) \<le> t \<and> t < 2 ^ 63 then t else int64_out_of_range rt fv)"

definition quo :: "int \<Rightarrow> int \<Rightarrow> int" where
  "quo a b = sgn a * sgn b * (\<bar>a\<bar> div \<bar>b\<bar>)"

definition rem :: "int \<Rightarrow> int \<Rightarrow> int" where
  "rem a b = a - quo a b * b"

text \<open>\<^verbatim>\<open>time.Unix(sec, nsec)\<close>: the instant as seconds since the epoch and nanoseconds within the second.\<close>

definition time_Unix :: "int \<Rightarrow> int \<Rightarrow> int \<times> int" where
  "time_Unix sec nsec =
     (if nsec < 0 \<or> nsec \<ge> 1000000000
      then (let n = quo nsec 1000000000; sec1 = sec + n; nsec1 = nsec - n * 1000000000
            in if nsec1 < 0 then (sec1 - 1, nsec1 + 1000000000) else (sec1, nsec1))
      else (sec, nsec))"

text \<open>
  \<^verbatim>\<open>t.Format(time.RFC3339Nano)\<close>, from Go's library: the date of the proleptic Gregorian
  calendar in the zone of \<^verbatim>\<open>time.Local\<close>, the year with at least four digits, the other
  fields with two, the fraction of the second without its trailing zeros (and without
  the point when it is zero), and the zone as \<^verbatim>\<open>Z\<close> or as \<^verbatim>\<open>+hh:mm\<close>.
\<close>

definition appendInt :: "int \<Rightarrow> nat \<Rightarrow> string" where
  "appendInt x width =
     (if x < 0 then ''-'' else []) @
     replicate (width - length (show_nat (nat \<bar>x\<bar>))) CHR ''0'' @ show_nat (nat \<bar>x\<bar>)"

definition civil_from_days :: "int \<Rightarrow> int \<times> int \<times> int" where
  "civil_from_days days =
     (let z = days + 719468;
          era = z div 146097;
          doe = z mod 146097;
          yoe = (doe - doe div 1460 + doe div 36524 - doe div 146096) div 365;
          doy = doe - (365 * yoe + yoe div 4 - yoe div 100);
          mp = (5 * doy + 2) div 153;
          d = doy - (153 * mp + 2) div 5 + 1;
          m = (if mp < 10 then mp + 3 else mp - 9);
          y = yoe + era * 400 + (if m \<le> 2 then 1 else 0)
      in (y, m, d))"

fun trim_zeros :: "string \<Rightarrow> string" where
  "trim_zeros s = rev (dropWhile (\<lambda>c. c = CHR ''0'') (rev s))"

definition appendNano :: "int \<Rightarrow> string" where
  "appendNano nsec =
     (let digits = trim_zeros (appendInt nsec 9)
      in if digits = [] then [] else ''.'' @ digits)"

definition appendZone :: "int \<Rightarrow> string" where
  "appendZone offset =
     (if offset = 0 then ''Z''
      else (let zone = quo offset 60
            in (if zone < 0 then ''-'' else ''+'') @
               appendInt (quo \<bar>zone\<bar> 60) 2 @ '':'' @ appendInt (rem \<bar>zone\<bar> 60) 2))"

definition Format_RFC3339Nano :: "runtime \<Rightarrow> int \<times> int \<Rightarrow> string" where
  "Format_RFC3339Nano rt t =
     (let (sec, nsec) = t;
          offset = zone_offset rt sec;
          local = sec + offset;
          (y, m, d) = civil_from_days (local div 86400);
          s = local mod 86400
      in appendInt y 4 @ ''-'' @ appendInt m 2 @ ''-'' @ appendInt d 2 @ ''T'' @
         appendInt (s div 3600) 2 @ '':'' @ appendInt (s mod 3600 div 60) 2 @ '':'' @
         appendInt (s mod 60) 2 @ appendNano nsec @ appendZone offset)"

text \<open>The table \<^verbatim>\<open>fieldPrinters\<close>: its one entry is for \<^verbatim>\<open>@timestamp\<close>.\<close>

definition timestamp_printer :: "runtime \<Rightarrow> jvalue \<Rightarrow> string \<times> bool" where
  "timestamp_printer rt v =
     (case as_float64 v of
        None \<Rightarrow> ([], False)
      | Some fv \<Rightarrow>
          (let sec = quo (int64_of_float64 rt fv) 1000;
               msec = rem (int64_of_float64 rt fv) 1000
           in (Format_RFC3339Nano rt (time_Unix sec (msec * 1000000)), True)))"

definition fieldPrinters :: "runtime \<Rightarrow> string \<rightharpoonup> (jvalue \<Rightarrow> string \<times> bool)" where
  "fieldPrinters rt = [''@timestamp'' \<mapsto> timestamp_printer rt]"

text \<open>The list of closures that \<^verbatim>\<open>initPrintFunc\<close> builds, one for each field.\<close>

definition printers :: "runtime \<Rightarrow> eventListPrinter \<Rightarrow> (event \<Rightarrow> string) list" where
  "printers rt p =
     map (\<lambda>f. case fieldPrinters rt f of
                 Some printer \<Rightarrow>
                   (\<lambda>m. let v = index m f
                        in case printer v of (str, True) \<Rightarrow> str | (str, False) \<Rightarrow> Sprint rt v)
               | None \<Rightarrow> (\<lambda>m. Sprint rt (index m f)))
       (printFields p)"

text \<open>
  \<^verbatim>\<open>fmt.Fprintf\<close> with string operands, from Go's library, for the formats this model
  covers: text without a percent sign, \<^verbatim>\<open>%%\<close>, and the verb \<^verbatim>\<open>s\<close> with the flags
  \<^verbatim>\<open>+ - # 0\<close> and space and a decimal width, one operand for each verb. Only the
  flag \<^verbatim>\<open>-\<close> and the width change how a string is written: it is padded with spaces to
  the width, counted in runes, on the left, or on the right under \<^verbatim>\<open>-\<close>. The result is
  \<open>None\<close> for any other format: another verb, a precision, \<^verbatim>\<open>*\<close>, an operand index, a
  width after the flag \<^verbatim>\<open>0\<close> without \<^verbatim>\<open>-\<close>, a width too large for \<^verbatim>\<open>fmt\<close>, or a number of
  operands other than the number of verbs.
\<close>

definition RuneCount :: "string \<Rightarrow> nat" where
  "RuneCount s = length (filter (\<lambda>c. (of_char c :: nat) div 64 \<noteq> 2) s)"

definition padString :: "bool \<Rightarrow> nat option \<Rightarrow> string \<Rightarrow> string" where
  "padString left wid s =
     (case wid of
        None \<Rightarrow> s
      | Some w \<Rightarrow>
          (if left then s @ replicate (w - RuneCount s) CHR '' ''
           else replicate (w - RuneCount s) CHR '' '' @ s))"

definition is_flag :: "char \<Rightarrow> bool" where
  "is_flag c \<longleftrightarrow> c \<in> set ''+-# 0''"

definition is_digit :: "char \<Rightarrow> bool" where
  "is_digit c \<longleftrightarrow> c \<in> set ''0123456789''"

definition read_nat :: "string \<Rightarrow> nat" where
  "read_nat ds = foldl (\<lambda>n c. 10 * n + (of_char c - 48)) 0 ds"

datatype directive = Percent | Str bool "nat option"

definition verb_of :: "string \<Rightarrow> string \<Rightarrow> string \<Rightarrow> (directive \<times> string) option" where
  "verb_of flags digits s2 =
     (let left = (CHR ''-'' \<in> set flags); zeros = (CHR ''0'' \<in> set flags)
      in case s2 of
           [] \<Rightarrow> None
         | v # rest \<Rightarrow>
             if digits \<noteq> [] \<and> read_nat (butlast digits) > 1000000 then None
             else if v = CHR ''%'' then Some (Percent, rest)
             else if v = CHR ''s'' then
               (if digits = [] then Some (Str left None, rest)
                else if zeros \<and> \<not> left then None
                else Some (Str left (Some (read_nat digits)), rest))
             else None)"

definition parse_verb :: "string \<Rightarrow> (directive \<times> string) option" where
  "parse_verb s =
     verb_of (takeWhile is_flag s) (takeWhile is_digit (dropWhile is_flag s))
       (dropWhile is_digit (dropWhile is_flag s))"

lemma verb_of_rest: "verb_of flags digits s2 = Some (d, rest) \<Longrightarrow> length rest < length s2"
  by (cases s2) (auto simp: verb_of_def Let_def split: if_splits)

lemma parse_verb_shorter: "parse_verb s = Some (d, rest) \<Longrightarrow> length rest < Suc (length s)"
proof -
  assume "parse_verb s = Some (d, rest)"
  then have "length rest < length (dropWhile is_digit (dropWhile is_flag s))"
    unfolding parse_verb_def by (rule verb_of_rest)
  moreover have "length (dropWhile is_digit (dropWhile is_flag s)) \<le> length s"
    using length_dropWhile_le [of is_digit "dropWhile is_flag s"]
      length_dropWhile_le [of is_flag s] by simp
  ultimately show "length rest < Suc (length s)" by simp
qed

function doPrintf :: "string \<Rightarrow> string list \<Rightarrow> string option" where
  "doPrintf [] args = (if args = [] then Some [] else None)"
| "doPrintf (c # cs) args =
     (if c \<noteq> CHR ''%'' then map_option ((#) c) (doPrintf cs args)
      else case parse_verb cs of
             None \<Rightarrow> None
           | Some (Percent, rest) \<Rightarrow> map_option ((#) CHR ''%'') (doPrintf rest args)
           | Some (Str left wid, rest) \<Rightarrow>
               (case args of
                  [] \<Rightarrow> None
                | a # as \<Rightarrow> map_option ((@) (padString left wid a)) (doPrintf rest as)))"
  by pat_completeness auto
termination
  by (relation "measure (\<lambda>(f, args). length f)") (auto dest: parse_verb_shorter)

text \<open>
  The closure \<^verbatim>\<open>printEventFunc\<close>: what one call writes for the event \<open>m\<close>.
\<close>

definition printEventFunc :: "runtime \<Rightarrow> eventListPrinter \<Rightarrow> event \<Rightarrow> string option" where
  "printEventFunc rt p m = doPrintf (fmt p @ newline) (map (\<lambda>printer. printer m) (printers rt p))"

text \<open>The event of the format example, and a runtime whose local zone is one hour east of UTC.\<close>

definition hello_event :: event where
  "hello_event = [(''@timestamp'', JNum 1700000000000), (''@rawstring'', JStr ''hello'')]"

definition runtime_cet :: runtime where
  "runtime_cet = runtime0\<lparr>zone_offset := (\<lambda>t. 3600)\<rparr>"

section \<open>Properties of the deduplication and of the ordering\<close>

lemma seen_upd: "seen (ids(i \<mapsto> True)) k \<longleftrightarrow> k = i \<or> seen ids k"
  by (simp add: seen_def)

lemma print_loop_ids:
  "seen (fst (print_loop ids es)) k \<longleftrightarrow>
     seen ids k \<or> (\<exists>e \<in> set (snd (print_loop ids es)). event_id e = Some k)"
proof (induction es arbitrary: ids)
  case Nil
  then show ?case by simp
next
  case (Cons e es)
  show ?case
  proof (cases "event_id e")
    case None
    then show ?thesis using Cons.IH [of ids]
      by (simp add: split_beta)
  next
    case (Some i)
    show ?thesis
    proof (cases "seen ids i")
      case True
      then show ?thesis using Some Cons.IH [of ids] by simp
    next
      case False
      then show ?thesis using Some Cons.IH [of "ids(i \<mapsto> True)"]
        by (auto simp: split_beta seen_upd simp del: fun_upd_apply)
    qed
  qed
qed

text \<open>emitted identifiers were not seen before\<close>
lemma print_loop_fresh:
  "e \<in> set (snd (print_loop ids es)) \<Longrightarrow> event_id e = Some k \<Longrightarrow> \<not> seen ids k"
proof (induction es arbitrary: ids)
  case Nil
  then show ?case by simp
next
  case (Cons x es)
  show ?case
  proof (cases "event_id x")
    case None
    then show ?thesis using Cons.prems Cons.IH [of ids]
      by (auto simp: split_beta)
  next
    case (Some i)
    show ?thesis
    proof (cases "seen ids i")
      case True
      then show ?thesis using Some Cons.prems Cons.IH [of ids] by simp
    next
      case False
      then show ?thesis using Some Cons.prems Cons.IH [of "ids(i \<mapsto> True)"]
        by (auto simp: split_beta seen_upd simp del: fun_upd_apply)
    qed
  qed
qed

lemma print_loop_once:
  "length (filter (\<lambda>e. event_id e = Some k) (snd (print_loop ids es))) \<le> 1"
proof (induction es arbitrary: ids)
  case Nil
  then show ?case by simp
next
  case (Cons x es)
  show ?case
  proof (cases "event_id x")
    case None
    then show ?thesis using Cons.IH [of ids]
      by (auto simp: split_beta)
  next
    case (Some i)
    show ?thesis
    proof (cases "seen ids i")
      case True
      then show ?thesis using Some Cons.IH [of ids] by simp
    next
      case False
      have "filter (\<lambda>e. event_id e = Some i) (snd (print_loop (ids(i \<mapsto> True)) es)) = []"
        using print_loop_fresh [of _ "ids(i \<mapsto> True)" es i]
        by (auto simp: filter_empty_conv seen_upd simp del: fun_upd_apply)
      then show ?thesis using False Some Cons.IH [of "ids(i \<mapsto> True)"]
        by (auto simp: split_beta seen_upd simp del: fun_upd_apply)
    qed
  qed
qed

lemma print_loop_no_id:
  "filter (\<lambda>e. event_id e = None) (snd (print_loop ids es)) = filter (\<lambda>e. event_id e = None) es"
proof (induction es arbitrary: ids)
  case Nil
  then show ?case by simp
next
  case (Cons x es)
  then show ?case
    by (cases "event_id x") (auto simp: split_beta)
qed

lemma print_loop_subset: "set (snd (print_loop ids es)) \<subseteq> set es"
proof (induction es arbitrary: ids)
  case Nil
  then show ?case by simp
next
  case (Cons x es)
  have "set (snd (print_loop ids' es)) \<subseteq> set es" for ids'
    by (rule Cons.IH)
  then show ?case
    by (cases "event_id x") (auto simp: split_beta simp del: fun_upd_apply)
qed

lemma print_loop_sorted:
  "sorted_wrt P es \<Longrightarrow> sorted_wrt P (snd (print_loop ids es))"
proof (induction es arbitrary: ids)
  case Nil
  then show ?case by simp
next
  case (Cons x es)
  have sub: "set (snd (print_loop ids' es)) \<subseteq> set es" for ids'
    by (rule print_loop_subset)
  have ih: "sorted_wrt P (snd (print_loop ids' es))" for ids'
    using Cons by simp
  have hd: "\<forall>y \<in> set (snd (print_loop ids' es)). P x y" for ids'
    using Cons.prems sub [of ids'] by auto
  show ?case
    by (cases "event_id x") (simp_all add: split_beta ih hd del: fun_upd_apply)
qed

lemma print_loop_mono: "seen ids k \<Longrightarrow> seen (fst (print_loop ids es)) k"
  by (simp add: print_loop_ids)

lemma print_session_ids:
  "seen (fst (print_session sorter ids rs)) k \<longleftrightarrow>
     seen ids k \<or> (\<exists>e \<in> set (snd (print_session sorter ids rs)). event_id e = Some k)"
proof (induction rs arbitrary: ids)
  case Nil
  then show ?case by simp
next
  case (Cons r rs)
  show ?case
    using Cons.IH [of "fst (print_events sorter ids r)"]
      print_loop_ids [of ids "sorter (Events r)" k]
    by (auto simp: split_beta print_events_def)
qed

lemma print_session_fresh:
  "e \<in> set (snd (print_session sorter ids rs)) \<Longrightarrow> event_id e = Some k \<Longrightarrow> \<not> seen ids k"
proof (induction rs arbitrary: ids)
  case Nil
  then show ?case by simp
next
  case (Cons r rs)
  let ?ids1 = "fst (print_events sorter ids r)"
  from Cons.prems(1)
  consider "e \<in> set (snd (print_events sorter ids r))"
    | "e \<in> set (snd (print_session sorter ?ids1 rs))"
    by (auto simp: split_beta)
  then show ?case
  proof cases
    case 1
    then show ?thesis using Cons.prems(2) print_loop_fresh
      by (simp add: print_events_def)
  next
    case 2
    then have "\<not> seen ?ids1 k" using Cons.IH Cons.prems(2) by blast
    then show ?thesis using print_loop_mono [of ids k "sorter (Events r)"]
      by (auto simp: print_events_def)
  qed
qed

lemma print_session_once:
  "length (filter (\<lambda>e. event_id e = Some k) (snd (print_session sorter ids rs))) \<le> 1"
proof (induction rs arbitrary: ids)
  case Nil
  then show ?case by simp
next
  case (Cons r rs)
  let ?ids1 = "fst (print_events sorter ids r)"
  let ?out1 = "snd (print_events sorter ids r)"
  let ?out2 = "snd (print_session sorter ?ids1 rs)"
  have out: "snd (print_session sorter ids (r # rs)) = ?out1 @ ?out2"
    by (simp add: split_beta)
  have once1: "length (filter (\<lambda>e. event_id e = Some k) ?out1) \<le> 1"
    unfolding print_events_def by (rule print_loop_once)
  show ?case
  proof (cases "\<exists>e \<in> set ?out1. event_id e = Some k")
    case True
    then have "seen ?ids1 k"
      using print_loop_ids [of ids "sorter (Events r)" k] by (simp add: print_events_def)
    then have "filter (\<lambda>e. event_id e = Some k) ?out2 = []"
      using print_session_fresh [of _ sorter ?ids1 rs k] by (auto simp: filter_empty_conv)
    then show ?thesis using once1 unfolding out by simp
  next
    case False
    then have "filter (\<lambda>e. event_id e = Some k) ?out1 = []"
      by (auto simp: filter_empty_conv)
    then show ?thesis using Cons.IH [of ?ids1] unfolding out by simp
  qed
qed

lemma print_session_no_id:
  assumes "\<And>xs. mset (sorter xs) = mset xs"
  shows "mset (filter (\<lambda>e. event_id e = None) (snd (print_session sorter ids rs))) =
         mset (filter (\<lambda>e. event_id e = None) (concat (map Events rs)))"
proof (induction rs arbitrary: ids)
  case Nil
  then show ?case by simp
next
  case (Cons r rs)
  have "mset (filter (\<lambda>e. event_id e = None) (sorter (Events r))) =
        mset (filter (\<lambda>e. event_id e = None) (Events r))"
    using assms [of "Events r"] by (simp only: mset_filter)
  then show ?case using Cons.IH [of "fst (print_events sorter ids r)"]
    by (simp add: split_beta print_events_def print_loop_no_id)
qed

subsection \<open>insertion sort\<close>

lemma mset_sift_left: "mset (sift_left lt x ys) = add_mset x (mset ys)"
  by (induction ys) auto

lemma mset_foldl_sift:
  "mset (foldl (\<lambda>acc x. sift_left lt x acc) acc xs) = mset acc + mset xs"
  by (induction xs arbitrary: acc) (auto simp: mset_sift_left)

lemma mset_insertionSort: "mset (insertionSort lt xs) = mset xs"
  by (simp add: insertionSort_def mset_foldl_sift)

lemma set_sift_left: "set (sift_left lt x ys) = insert x (set ys)"
  by (induction ys) auto

lemma sorted_sift_left:
  assumes "\<forall>a b. lt a b \<longrightarrow> \<not> lt b a"
    and "\<forall>a b c. lt a c \<longrightarrow> lt a b \<or> lt b c"
    and "sorted_wrt (\<lambda>a b. \<not> lt a b) ys"
  shows "sorted_wrt (\<lambda>a b. \<not> lt a b) (sift_left lt x ys)"
  using assms(3)
proof (induction ys)
  case Nil
  then show ?case by simp
next
  case (Cons y ys)
  show ?case
  proof (cases "lt x y")
    case True
    then show ?thesis using Cons assms(1) by (auto simp: set_sift_left)
  next
    case False
    then show ?thesis using Cons assms(2) by auto
  qed
qed

lemma sorted_foldl_sift:
  assumes "\<forall>a b. lt a b \<longrightarrow> \<not> lt b a"
    and "\<forall>a b c. lt a c \<longrightarrow> lt a b \<or> lt b c"
  shows "sorted_wrt (\<lambda>a b. \<not> lt a b) acc \<Longrightarrow>
         sorted_wrt (\<lambda>a b. \<not> lt a b) (foldl (\<lambda>acc x. sift_left lt x acc) acc xs)"
proof (induction xs arbitrary: acc)
  case Nil
  then show ?case by simp
next
  case (Cons x xs)
  have "sorted_wrt (\<lambda>a b. \<not> lt a b) (sift_left lt x acc)"
    using assms Cons.prems by (rule sorted_sift_left)
  then show ?case using Cons.IH by simp
qed

lemma less_ts_asym: "less_ts a b \<Longrightarrow> \<not> less_ts b a"
  by (auto simp: less_ts_def split: option.splits)

lemma less_ts_ntrans: "less_ts a c \<Longrightarrow> less_ts a b \<or> less_ts b c"
  by (auto simp: less_ts_def split: option.splits)

lemma insertionSort_post: "sort_Slice_post less_ts xs (insertionSort less_ts xs)"
proof -
  have a: "\<forall>a b. less_ts a b \<longrightarrow> \<not> less_ts b a"
    using less_ts_asym by blast
  have n: "\<forall>a b c. less_ts a c \<longrightarrow> less_ts a b \<or> less_ts b c"
    using less_ts_ntrans by blast
  have "sorted_wrt (\<lambda>a b. \<not> less_ts a b) (foldl (\<lambda>acc x. sift_left less_ts x acc) [] xs)"
    by (rule sorted_foldl_sift [OF a n]) simp
  then show ?thesis
    by (simp add: sort_Slice_post_def mset_foldl_sift insertionSort_def sorted_wrt_rev)
qed

lemma less_ts_timestamp:
  "less_ts a b \<longleftrightarrow>
     (case timestamp b of None \<Rightarrow> False
      | Some y \<Rightarrow> (case timestamp a of None \<Rightarrow> True | Some x \<Rightarrow> x < y))"
  by (auto simp: less_ts_def timestamp_def split: option.splits)

lemma sorted_less_ts_shape:
  "sorted_wrt (\<lambda>a b. \<not> less_ts b a) out \<Longrightarrow>
     out = filter (\<lambda>e. timestamp e = None) out @ filter (\<lambda>e. timestamp e \<noteq> None) out \<and>
     sorted (List.map_filter timestamp out)"
proof (induction out)
  case Nil
  then show ?case by (simp add: List.map_filter_simps)
next
  case (Cons x xs)
  then have ih: "xs = filter (\<lambda>e. timestamp e = None) xs @ filter (\<lambda>e. timestamp e \<noteq> None) xs"
    and ihs: "sorted (List.map_filter timestamp xs)"
    and hd: "\<forall>y \<in> set xs. \<not> less_ts y x"
    by simp_all
  show ?case
  proof (cases "timestamp x")
    case None
    then show ?thesis using ih ihs by (simp add: List.map_filter_simps)
  next
    case (Some t)
    have all: "\<forall>y \<in> set xs. \<exists>u. timestamp y = Some u \<and> t \<le> u"
      using hd Some by (auto simp: less_ts_timestamp split: option.splits)
    then have "filter (\<lambda>e. timestamp e = None) xs = []"
      by (auto simp: filter_empty_conv)
    moreover have "filter (\<lambda>e. timestamp e \<noteq> None) xs = xs"
      using all by (auto simp: filter_id_conv)
    moreover have "\<forall>u \<in> set (List.map_filter timestamp xs). t \<le> u"
      using all by (auto simp: List.map_filter_def)
    ultimately show ?thesis using Some ihs by (simp add: List.map_filter_simps)
  qed
qed

lemma less_ts_untimestamped:
  "timestamp a = None \<Longrightarrow> timestamp b = None \<Longrightarrow> \<not> less_ts a b \<and> \<not> less_ts b a"
  by (simp add: less_ts_timestamp)

text \<open>
  Claim C2. Across the snapshots of one session in event-list mode: no emitted event
  carries an identifier (a string under \<^verbatim>\<open>@id\<close>) that was in the dedup set when the
  session started; the events without an identifier are emitted every time they appear
  (as many times as they occur in the snapshots); the final set holds exactly the
  identifiers it held before and those emitted, so it only grows; and every identifier
  is emitted at most once. The sort before the loop only needs to return a permutation.
\<close>

theorem print_session_dedup:
  assumes perm: "\<And>xs. mset (sorter xs) = mset xs"
    and run: "print_session sorter ids rs = (ids', out)"
  shows "(\<forall>e \<in> set out. \<forall>k. event_id e = Some k \<longrightarrow> \<not> seen ids k) \<and>
         mset (filter (\<lambda>e. event_id e = None) out) =
           mset (filter (\<lambda>e. event_id e = None) (concat (map Events rs))) \<and>
         (\<forall>k. seen ids' k \<longleftrightarrow> seen ids k \<or> (\<exists>e \<in> set out. event_id e = Some k)) \<and>
         (\<forall>k. length (filter (\<lambda>e. event_id e = Some k) out) \<le> 1)"
proof -
  have ids': "ids' = fst (print_session sorter ids rs)"
    and out: "out = snd (print_session sorter ids rs)"
    using run by simp_all
  have "\<forall>e \<in> set out. \<forall>k. event_id e = Some k \<longrightarrow> \<not> seen ids k"
    unfolding out using print_session_fresh by blast
  moreover have "mset (filter (\<lambda>e. event_id e = None) out) =
      mset (filter (\<lambda>e. event_id e = None) (concat (map Events rs)))"
    unfolding out using perm by (rule print_session_no_id)
  moreover have "\<forall>k. seen ids' k \<longleftrightarrow> seen ids k \<or> (\<exists>e \<in> set out. event_id e = Some k)"
    unfolding out ids' using print_session_ids by blast
  moreover have "\<forall>k. length (filter (\<lambda>e. event_id e = Some k) out) \<le> 1"
    unfolding out using print_session_once by blast
  ultimately show ?thesis by blast
qed

lemma print_session_example:
  "print_session (insertionSort less_ts) Map.empty
     [snapshot_of [[(''@id'', JStr ''e1'')], [(''msg'', JStr ''x'')]],
      snapshot_of [[(''msg'', JStr ''x'')], [(''@id'', JStr ''e1'')]]] =
   (Map.empty(''e1'' \<mapsto> True),
    [[(''@id'', JStr ''e1'')], [(''msg'', JStr ''x'')], [(''msg'', JStr ''x'')]])"
  by (simp add: snapshot_of_def print_events_def insertionSort_def less_ts_def index_def
      event_id_def seen_def)

theorem print_session_dedup_witness:
  "(\<forall>xs. mset (insertionSort less_ts xs) = mset xs) \<and>
   print_session (insertionSort less_ts) Map.empty
     [snapshot_of [[(''@id'', JStr ''e1'')], [(''msg'', JStr ''x'')]],
      snapshot_of [[(''msg'', JStr ''x'')], [(''@id'', JStr ''e1'')]]] =
   (Map.empty(''e1'' \<mapsto> True),
    [[(''@id'', JStr ''e1'')], [(''msg'', JStr ''x'')], [(''msg'', JStr ''x'')]]) \<and>
   (\<forall>k. length (filter (\<lambda>e. event_id e = Some k)
       [[(''@id'', JStr ''e1'')], [(''msg'', JStr ''x'')], [(''msg'', JStr ''x'')]]) \<le> 1) \<and>
   (\<forall>k. seen (Map.empty(''e1'' \<mapsto> True)) k \<longleftrightarrow> seen Map.empty k \<or>
       (\<exists>e \<in> set [[(''@id'', JStr ''e1'')], [(''msg'', JStr ''x'')], [(''msg'', JStr ''x'')]].
          event_id e = Some k))"
  using print_session_dedup [OF mset_insertionSort print_session_example]
    mset_insertionSort [of less_ts] print_session_example
  by blast

text \<open>
  Claim C3, as the code has it. The events emitted for one snapshot are ordered by the
  comparison given to \<^verbatim>\<open>sort.Slice\<close>: every event without a numeric \<^verbatim>\<open>@timestamp\<close> comes
  before all the timestamped ones, the timestamps of the emitted timestamped events
  ascend, and two events without a timestamp compare equal (neither is less than the
  other). This holds for every result \<^verbatim>\<open>sort.Slice\<close> may return.
\<close>

theorem print_events_order:
  assumes "sort_Slice_post less_ts (Events r) (sorter (Events r))"
  shows "snd (print_events sorter ids r) =
           filter (\<lambda>e. timestamp e = None) (snd (print_events sorter ids r)) @
           filter (\<lambda>e. timestamp e \<noteq> None) (snd (print_events sorter ids r)) \<and>
         sorted (List.map_filter timestamp (snd (print_events sorter ids r))) \<and>
         (\<forall>a b. timestamp a = None \<and> timestamp b = None \<longrightarrow> \<not> less_ts a b \<and> \<not> less_ts b a)"
proof -
  have "sorted_wrt (\<lambda>a b. \<not> less_ts b a) (sorter (Events r))"
    using assms by (simp add: sort_Slice_post_def)
  then have "sorted_wrt (\<lambda>a b. \<not> less_ts b a) (snd (print_events sorter ids r))"
    unfolding print_events_def by (rule print_loop_sorted)
  then show ?thesis using sorted_less_ts_shape less_ts_untimestamped by blast
qed

lemma print_events_example:
  "snd (print_events (insertionSort less_ts) Map.empty
     (snapshot_of [[(''@timestamp'', JNum 30)], [(''msg'', JStr ''x'')],
        [(''@timestamp'', JNum 10)], [(''@timestamp'', JNum 20)]])) =
   [[(''msg'', JStr ''x'')], [(''@timestamp'', JNum 10)], [(''@timestamp'', JNum 20)],
    [(''@timestamp'', JNum 30)]]"
  by (simp add: snapshot_of_def print_events_def insertionSort_def less_ts_def index_def
      event_id_def)

theorem print_events_order_witness:
  "sort_Slice_post less_ts
     (Events (snapshot_of [[(''@timestamp'', JNum 30)], [(''msg'', JStr ''x'')],
        [(''@timestamp'', JNum 10)], [(''@timestamp'', JNum 20)]]))
     (insertionSort less_ts
       (Events (snapshot_of [[(''@timestamp'', JNum 30)], [(''msg'', JStr ''x'')],
          [(''@timestamp'', JNum 10)], [(''@timestamp'', JNum 20)]]))) \<and>
   sorted (List.map_filter timestamp
     (snd (print_events (insertionSort less_ts) Map.empty
       (snapshot_of [[(''@timestamp'', JNum 30)], [(''msg'', JStr ''x'')],
          [(''@timestamp'', JNum 10)], [(''@timestamp'', JNum 20)]])))) \<and>
   List.map_filter timestamp
     (snd (print_events (insertionSort less_ts) Map.empty
       (snapshot_of [[(''@timestamp'', JNum 30)], [(''msg'', JStr ''x'')],
          [(''@timestamp'', JNum 10)], [(''@timestamp'', JNum 20)]]))) = [10, 20, 30]"
  using print_events_order [of "snapshot_of [[(''@timestamp'', JNum 30)], [(''msg'', JStr ''x'')],
        [(''@timestamp'', JNum 10)], [(''@timestamp'', JNum 20)]]" "insertionSort less_ts" Map.empty]
    insertionSort_post [of "Events (snapshot_of [[(''@timestamp'', JNum 30)], [(''msg'', JStr ''x'')],
        [(''@timestamp'', JNum 10)], [(''@timestamp'', JNum 20)]])"]
  by (simp add: print_events_example timestamp_def index_def List.map_filter_simps)

text \<open>
  The claim as the specification states it puts the events without a timestamp after
  the timestamped ones. For the two events below, given in that order, the code emits
  the one without a timestamp first.
\<close>

theorem print_events_untimestamped_first:
  "snd (print_events (insertionSort less_ts) Map.empty
     (snapshot_of [[(''@timestamp'', JNum 10)], [(''msg'', JStr ''x'')]])) =
   [[(''msg'', JStr ''x'')], [(''@timestamp'', JNum 10)]]"
  by (simp add: snapshot_of_def print_events_def insertionSort_def less_ts_def index_def
      event_id_def)

section \<open>Properties of the poller\<close>

lemma wrap64_id: "minDuration \<le> x \<Longrightarrow> x \<le> maxDuration \<Longrightarrow> wrap64 x = x"
  by (simp add: wrap64_def minDuration_def maxDuration_def)

lemma poll_delay_in_range:
  assumes "minDuration \<le> p * Millisecond" "p * Millisecond \<le> maxDuration"
  shows "poll_delay p = p * Millisecond"
proof -
  have "minDuration \<le> p \<and> p \<le> maxDuration"
    using assms by (auto simp: Millisecond_def minDuration_def maxDuration_def)
  then have "wrap64 p = p" by (simp add: wrap64_id)
  then show ?thesis using assms by (simp add: poll_delay_def wrap64_id)
qed

lemma poll_delay_le: "poll_delay p \<le> maxDuration"
proof -
  have "wrap64 x \<le> maxDuration" for x
  proof -
    have "(x + 2 ^ 63) mod 2 ^ 64 < (2 ^ 64 :: int)" by simp
    then show ?thesis by (simp add: wrap64_def maxDuration_def)
  qed
  then show ?thesis by (simp add: poll_delay_def)
qed

lemma timer_wait:
  "nextPoll q - now env \<le> maxDuration \<Longrightarrow>
   max 0 (time_Until (nextPoll q) (now env)) = max 0 (nextPoll q - now env)"
  by (auto simp: time_Until_def time_Sub_def minDuration_def maxDuration_def)

lemma select_wait_timer:
  assumes "nextPoll q - now env \<le> maxDuration" "select_wait env q = TimerFired t"
  shows "nextPoll q \<le> t \<and> now env \<le> t"
  using assms(2) timer_wait [OF assms(1)]
  by (auto simp: select_wait_def Let_def split: option.splits if_splits)

lemma select_wait_cancel:
  assumes "nextPoll q - now env \<le> maxDuration" "cancelAt env = Some c"
    "max c (now env) < now env + max 0 (nextPoll q - now env) + int (lag env)"
  shows "select_wait env q = CtxDone (max c (now env))"
  using assms(2,3) timer_wait [OF assms(1)]
  by (auto simp: select_wait_def Let_def split: option.splits if_splits)


lemma select_wait_fire:
  assumes "nextPoll q - now env \<le> maxDuration" "select_wait env q = TimerFired t"
  shows "t = now env + max 0 (nextPoll q - now env) + int (lag env)"
  using assms(2) timer_wait [OF assms(1)]
  by (auto simp: select_wait_def Let_def split: option.splits if_splits)

lemma select_wait_uncancelled:
  assumes "nextPoll q - now env \<le> maxDuration" "cancelAt env = None"
  shows "select_wait env q = TimerFired (now env + max 0 (nextPoll q - now env) + int (lag env))"
  using assms(2) timer_wait [OF assms(1)]
  by (simp add: select_wait_def Let_def)

lemma select_wait_late_cancel:
  assumes "nextPoll q - now env \<le> maxDuration" "cancelAt env = Some c"
    "now env + max 0 (nextPoll q - now env) + int (lag env) < max c (now env)"
  shows "select_wait env q = TimerFired (now env + max 0 (nextPoll q - now env) + int (lag env))"
proof -
  have "now env + max 0 (time_Until (nextPoll q) (now env)) + int (lag env) =
      now env + max 0 (nextPoll q - now env) + int (lag env)"
    using timer_wait [OF assms(1)] by simp
  then show ?thesis using assms(2,3)
    by (auto simp: select_wait_def Let_def max_def split: if_splits)
qed

lemma requested_at_timer:
  "requested_at (WaitAndPollContext env q) = Some t \<longleftrightarrow> select_wait env q = TimerFired t"
  by (auto simp: WaitAndPollContext_def split: select_case.splits option.splits prod.splits)

lemma WaitAndPollContext_timer_failed:
  assumes "select_wait env q = TimerFired t" "response env = (r, Some e)"
  shows "WaitAndPollContext env q =
    \<lparr>poller_after = q, returned = (r, Some e), requested_at = Some t,
     returned_at = t + int (latency env)\<rparr>"
  using assms by (simp add: WaitAndPollContext_def)

lemma WaitAndPollContext_timer_answered:
  assumes "select_wait env q = TimerFired t" "response env = (r, None)"
  shows "WaitAndPollContext env q =
    \<lparr>poller_after = q\<lparr>nextPoll := t + int (latency env) + poll_delay (PollAfter (Metadata r))\<rparr>,
     returned = (r, None), requested_at = Some t, returned_at = t + int (latency env)\<rparr>"
  using assms by (simp add: WaitAndPollContext_def)

lemma WaitAndPollContext_timer:
  assumes "select_wait env q = TimerFired t"
  shows "returned (WaitAndPollContext env q) = response env \<and>
         returned_at (WaitAndPollContext env q) = t + int (latency env)"
proof -
  obtain r e where re: "response env = (r, e)" by (cases "response env")
  show ?thesis
  proof (cases e)
    case None
    then show ?thesis using WaitAndPollContext_timer_answered [OF assms, of r] re by simp
  next
    case (Some err)
    then show ?thesis using WaitAndPollContext_timer_failed [OF assms, of r err] re by simp
  qed
qed

lemma WaitAndPollContext_done:
  assumes "select_wait env q = CtxDone t"
  shows "WaitAndPollContext env q =
    \<lparr>poller_after = q, returned = (zero_QueryResult, Some Canceled), requested_at = None,
     returned_at = t\<rparr>"
  using assms by (simp add: WaitAndPollContext_def)

text \<open>
  Claim C1. Let the poller's next poll time lie at most the greatest duration after the
  start of the call (true of the initial poller and kept by every call, since the clock
  does not go back), and let \<open>fire\<close> be the start of the call plus
  \<open>max 0 (nextPoll - now)\<close> plus the lateness of the timer. Then:
  a request is issued only at \<open>fire\<close>, which is not before \<^verbatim>\<open>nextPoll\<close> and not before the
  start of the call, the call returns what \<^verbatim>\<open>PollContext\<close> returned, and \<^verbatim>\<open>time.Now()\<close> is
  read \<open>latency\<close> after the request;
  the request is issued (at \<open>fire\<close>) whenever no cancellation is ready by then;
  after a successful response the poller is the old one with \<^verbatim>\<open>nextPoll\<close> set to the
  instant at which \<^verbatim>\<open>time.Now()\<close> was read plus the delay computed from \<^verbatim>\<open>PollAfter\<close>, which
  is \<^verbatim>\<open>PollAfter\<close> milliseconds whenever that fits a \<^verbatim>\<open>time.Duration\<close>, and then every later
  call issues its request no earlier than that many milliseconds after the response;
  and when the cancellation signal is ready before the timer fires, the call returns
  \<^verbatim>\<open>context.Canceled\<close> with the zero result at that instant, issues no request and leaves
  the poller as it was.
\<close>

theorem WaitAndPollContext_backoff:
  assumes inv: "nextPoll q - now env \<le> maxDuration"
  shows "(\<forall>t. requested_at (WaitAndPollContext env q) = Some t \<longrightarrow>
            nextPoll q \<le> t \<and> now env \<le> t \<and>
            t = now env + max 0 (nextPoll q - now env) + int (lag env) \<and>
            returned (WaitAndPollContext env q) = response env \<and>
            returned_at (WaitAndPollContext env q) = t + int (latency env)) \<and>
         (cancelAt env = None \<longrightarrow>
            requested_at (WaitAndPollContext env q) =
              Some (now env + max 0 (nextPoll q - now env) + int (lag env))) \<and>
         (\<forall>c. cancelAt env = Some c \<and>
              now env + max 0 (nextPoll q - now env) + int (lag env) < max c (now env) \<longrightarrow>
            requested_at (WaitAndPollContext env q) =
              Some (now env + max 0 (nextPoll q - now env) + int (lag env))) \<and>
         (\<forall>t r. requested_at (WaitAndPollContext env q) = Some t \<and> response env = (r, None) \<longrightarrow>
            returned (WaitAndPollContext env q) = (r, None) \<and>
            poller_after (WaitAndPollContext env q) =
              q\<lparr>nextPoll := t + int (latency env) + poll_delay (PollAfter (Metadata r))\<rparr> \<and>
            (minDuration \<le> PollAfter (Metadata r) * Millisecond \<and>
             PollAfter (Metadata r) * Millisecond \<le> maxDuration \<longrightarrow>
               nextPoll (poller_after (WaitAndPollContext env q)) =
                 t + int (latency env) + PollAfter (Metadata r) * Millisecond \<and>
               (\<forall>env2 t2. t + int (latency env) \<le> now env2 \<and>
                  requested_at (WaitAndPollContext env2 (poller_after (WaitAndPollContext env q)))
                    = Some t2 \<longrightarrow>
                  t + int (latency env) + PollAfter (Metadata r) * Millisecond \<le> t2))) \<and>
         (\<forall>c. cancelAt env = Some c \<and>
              max c (now env) < now env + max 0 (nextPoll q - now env) + int (lag env) \<longrightarrow>
            returned (WaitAndPollContext env q) = (zero_QueryResult, Some Canceled) \<and>
            requested_at (WaitAndPollContext env q) = None \<and>
            returned_at (WaitAndPollContext env q) = max c (now env) \<and>
            poller_after (WaitAndPollContext env q) = q)"
proof (intro conjI allI impI)
  fix t assume "requested_at (WaitAndPollContext env q) = Some t"
  then have sw: "select_wait env q = TimerFired t"
    by (simp add: requested_at_timer)
  show "nextPoll q \<le> t" and "now env \<le> t"
    using select_wait_timer [OF inv sw] by simp_all
  show "t = now env + max 0 (nextPoll q - now env) + int (lag env)"
    using inv sw by (rule select_wait_fire)
  show "returned (WaitAndPollContext env q) = response env"
    and "returned_at (WaitAndPollContext env q) = t + int (latency env)"
    using WaitAndPollContext_timer [OF sw] by simp_all
next
  assume "cancelAt env = None"
  then show "requested_at (WaitAndPollContext env q) =
      Some (now env + max 0 (nextPoll q - now env) + int (lag env))"
    using select_wait_uncancelled [OF inv] by (simp add: requested_at_timer)
next
  fix c assume "cancelAt env = Some c \<and>
      now env + max 0 (nextPoll q - now env) + int (lag env) < max c (now env)"
  then show "requested_at (WaitAndPollContext env q) =
      Some (now env + max 0 (nextPoll q - now env) + int (lag env))"
    using select_wait_late_cancel [OF inv] by (simp add: requested_at_timer)
next
  fix t r
  assume a: "requested_at (WaitAndPollContext env q) = Some t \<and> response env = (r, None)"
  then have sw: "select_wait env q = TimerFired t"
    by (simp add: requested_at_timer)
  have w: "WaitAndPollContext env q =
    \<lparr>poller_after = q\<lparr>nextPoll := t + int (latency env) + poll_delay (PollAfter (Metadata r))\<rparr>,
     returned = (r, None), requested_at = Some t, returned_at = t + int (latency env)\<rparr>"
    using sw a by (simp add: WaitAndPollContext_timer_answered)
  show "returned (WaitAndPollContext env q) = (r, None)"
    by (simp add: w)
  show pa: "poller_after (WaitAndPollContext env q) =
      q\<lparr>nextPoll := t + int (latency env) + poll_delay (PollAfter (Metadata r))\<rparr>"
    by (simp add: w)
  assume rng: "minDuration \<le> PollAfter (Metadata r) * Millisecond \<and>
      PollAfter (Metadata r) * Millisecond \<le> maxDuration"
  then have pd: "poll_delay (PollAfter (Metadata r)) = PollAfter (Metadata r) * Millisecond"
    by (simp add: poll_delay_in_range)
  show next_eq: "nextPoll (poller_after (WaitAndPollContext env q)) =
      t + int (latency env) + PollAfter (Metadata r) * Millisecond"
    by (simp add: pa pd)
  fix env2 t2
  assume later: "t + int (latency env) \<le> now env2 \<and>
      requested_at (WaitAndPollContext env2 (poller_after (WaitAndPollContext env q))) = Some t2"
  let ?q' = "poller_after (WaitAndPollContext env q)"
  have "nextPoll ?q' - now env2 \<le> maxDuration"
    using next_eq later rng by simp
  moreover have "select_wait env2 ?q' = TimerFired t2"
    using later by (simp add: requested_at_timer)
  ultimately have "nextPoll ?q' \<le> t2" using select_wait_timer by blast
  then show "t + int (latency env) + PollAfter (Metadata r) * Millisecond \<le> t2"
    using next_eq by simp
next
  fix c assume c: "cancelAt env = Some c \<and>
      max c (now env) < now env + max 0 (nextPoll q - now env) + int (lag env)"
  then have sw: "select_wait env q = CtxDone (max c (now env))"
    using select_wait_cancel [OF inv] by blast
  show "returned (WaitAndPollContext env q) = (zero_QueryResult, Some Canceled)"
    and "requested_at (WaitAndPollContext env q) = None"
    and "returned_at (WaitAndPollContext env q) = max c (now env)"
    and "poller_after (WaitAndPollContext env q) = q"
    by (simp_all add: WaitAndPollContext_done [OF sw])
qed

lemma WaitAndPollContext_answered:
  "WaitAndPollContext env_answered poller0 =
     \<lparr>poller_after = poller0\<lparr>nextPoll := 500001007\<rparr>, returned = (snapshot500, None),
      requested_at = Some 1000, returned_at = 1007\<rparr>"
  by (simp add: WaitAndPollContext_def select_wait_def env_answered_def poller0_def
      time_Until_def time_Sub_def minDuration_def maxDuration_def poll_delay_def wrap64_def
      Millisecond_def snapshot500_def zero_Metadata_def)

lemma WaitAndPollContext_cancelled:
  "WaitAndPollContext env_cancelled (poller0\<lparr>nextPoll := 500001007\<rparr>) =
     \<lparr>poller_after = poller0\<lparr>nextPoll := 500001007\<rparr>,
      returned = (zero_QueryResult, Some Canceled), requested_at = None, returned_at = 5000\<rparr>"
  by (simp add: WaitAndPollContext_def select_wait_def env_cancelled_def poller0_def
      time_Until_def time_Sub_def minDuration_def maxDuration_def)

lemma WaitAndPollContext_next:
  "requested_at (WaitAndPollContext (env_answered\<lparr>now := 2000\<rparr>)
       (poller0\<lparr>nextPoll := 500001007\<rparr>)) = Some 500001007"
  by (simp add: WaitAndPollContext_def select_wait_def env_answered_def poller0_def
      time_Until_def time_Sub_def minDuration_def maxDuration_def)

theorem WaitAndPollContext_backoff_witness:
  "nextPoll poller0 - now env_answered \<le> maxDuration \<and>
   cancelAt env_answered = None \<and>
   response env_answered = (snapshot500, None) \<and>
   PollAfter (Metadata snapshot500) = 500 \<and>
   requested_at (WaitAndPollContext env_answered poller0) = Some 1000 \<and>
   returned (WaitAndPollContext env_answered poller0) = (snapshot500, None) \<and>
   returned_at (WaitAndPollContext env_answered poller0) = 1000 + 7 \<and>
   poller_after (WaitAndPollContext env_answered poller0) =
     poller0\<lparr>nextPoll := 1000 + 7 + 500 * Millisecond\<rparr> \<and>
   requested_at (WaitAndPollContext (env_answered\<lparr>now := 2000\<rparr>)
       (poller_after (WaitAndPollContext env_answered poller0))) =
     Some (1000 + 7 + 500 * Millisecond) \<and>
   cancelAt env_cancelled = Some 5000 \<and>
   returned (WaitAndPollContext env_cancelled
       (poller_after (WaitAndPollContext env_answered poller0))) =
     (zero_QueryResult, Some Canceled) \<and>
   requested_at (WaitAndPollContext env_cancelled
       (poller_after (WaitAndPollContext env_answered poller0))) = None"
proof -
  have inv: "nextPoll poller0 - now env_answered \<le> maxDuration"
    by (simp add: poller0_def env_answered_def maxDuration_def)
  have facts: "cancelAt env_answered = None" "response env_answered = (snapshot500, None)"
    "PollAfter (Metadata snapshot500) = 500" "cancelAt env_cancelled = Some 5000"
    by (simp_all add: env_answered_def env_cancelled_def snapshot500_def zero_Metadata_def)
  from WaitAndPollContext_backoff [OF inv]
  have "cancelAt env_answered = None \<longrightarrow>
      requested_at (WaitAndPollContext env_answered poller0) =
        Some (now env_answered + max 0 (nextPoll poller0 - now env_answered) +
          int (lag env_answered))"
    by blast
  then have req: "requested_at (WaitAndPollContext env_answered poller0) = Some 1000"
    using facts(1) by (simp add: env_answered_def poller0_def)
  have rest: "returned (WaitAndPollContext env_answered poller0) = (snapshot500, None)"
    "returned_at (WaitAndPollContext env_answered poller0) = 1000 + 7"
    "poller_after (WaitAndPollContext env_answered poller0) =
       poller0\<lparr>nextPoll := 1000 + 7 + 500 * Millisecond\<rparr>"
    by (simp_all add: WaitAndPollContext_answered Millisecond_def)
  have later: "requested_at (WaitAndPollContext (env_answered\<lparr>now := 2000\<rparr>)
       (poller_after (WaitAndPollContext env_answered poller0))) =
     Some (1000 + 7 + 500 * Millisecond)"
    "returned (WaitAndPollContext env_cancelled
       (poller_after (WaitAndPollContext env_answered poller0))) =
     (zero_QueryResult, Some Canceled)"
    "requested_at (WaitAndPollContext env_cancelled
       (poller_after (WaitAndPollContext env_answered poller0))) = None"
    by (simp_all add: WaitAndPollContext_answered WaitAndPollContext_cancelled
        WaitAndPollContext_next Millisecond_def)
  from inv facts req rest later show ?thesis by blast
qed

text \<open>
  Claim C10. When \<^verbatim>\<open>PollContext\<close> fails: a call that issues the request returns the pair
  \<^verbatim>\<open>PollContext\<close> returned, unmodified, and it does issue the request whenever the
  context is never cancelled; the poller afterwards is the poller before, so
  \<^verbatim>\<open>nextPoll\<close> is unchanged; any later call behaves as it would have on the poller before
  the failed call, and if it issues a request it does so when its timer for the poll
  time scheduled before fires, with no further delay. Besides, whenever a call returns
  an error, whatever its cause, the poller is as it was before the call.
\<close>

theorem WaitAndPollContext_error:
  "(response env = (r, Some e) \<longrightarrow>
      (\<forall>t. requested_at (WaitAndPollContext env q) = Some t \<longrightarrow>
         returned (WaitAndPollContext env q) = (r, Some e) \<and>
         returned_at (WaitAndPollContext env q) = t + int (latency env)) \<and>
      (cancelAt env = None \<longrightarrow>
         requested_at (WaitAndPollContext env q) \<noteq> None \<and>
         returned (WaitAndPollContext env q) = (r, Some e)) \<and>
      poller_after (WaitAndPollContext env q) = q \<and>
      nextPoll (poller_after (WaitAndPollContext env q)) = nextPoll q \<and>
      (\<forall>env2. WaitAndPollContext env2 (poller_after (WaitAndPollContext env q)) =
         WaitAndPollContext env2 q) \<and>
      (\<forall>env2 t2. nextPoll q - now env2 \<le> maxDuration \<and>
         requested_at (WaitAndPollContext env2 (poller_after (WaitAndPollContext env q))) =
           Some t2 \<longrightarrow>
         t2 = now env2 + max 0 (nextPoll q - now env2) + int (lag env2))) \<and>
   (\<forall>r' e'. returned (WaitAndPollContext env q) = (r', Some e') \<longrightarrow>
      poller_after (WaitAndPollContext env q) = q)"
proof (intro conjI impI allI)
  assume resp: "response env = (r, Some e)"
  show same: "poller_after (WaitAndPollContext env q) = q"
  proof (cases "select_wait env q")
    case (TimerFired t)
    then show ?thesis using resp by (simp add: WaitAndPollContext_timer_failed)
  next
    case (CtxDone t)
    then show ?thesis by (simp add: WaitAndPollContext_done)
  qed
  then show "nextPoll (poller_after (WaitAndPollContext env q)) = nextPoll q"
    by simp
  {
    fix t assume "requested_at (WaitAndPollContext env q) = Some t"
    then have sw: "select_wait env q = TimerFired t"
      by (simp add: requested_at_timer)
    show "returned (WaitAndPollContext env q) = (r, Some e)"
      and "returned_at (WaitAndPollContext env q) = t + int (latency env)"
      by (simp_all add: WaitAndPollContext_timer_failed [OF sw resp])
  }
  {
    assume nc: "cancelAt env = None"
    then obtain t where sw: "select_wait env q = TimerFired t"
      by (simp add: select_wait_def Let_def)
    show "requested_at (WaitAndPollContext env q) \<noteq> None"
      and "returned (WaitAndPollContext env q) = (r, Some e)"
      by (simp_all add: WaitAndPollContext_timer_failed [OF sw resp])
  }
  {
    fix env2
    show "WaitAndPollContext env2 (poller_after (WaitAndPollContext env q)) =
        WaitAndPollContext env2 q"
      by (simp add: same)
  }
  {
    fix env2 t2
    assume a: "nextPoll q - now env2 \<le> maxDuration \<and>
        requested_at (WaitAndPollContext env2 (poller_after (WaitAndPollContext env q))) = Some t2"
    then have "select_wait env2 q = TimerFired t2"
      by (simp add: same requested_at_timer)
    then show "t2 = now env2 + max 0 (nextPoll q - now env2) + int (lag env2)"
      using a select_wait_fire by blast
  }
next
  fix r' e'
  assume "returned (WaitAndPollContext env q) = (r', Some e')"
  then show "poller_after (WaitAndPollContext env q) = q"
    by (auto simp: WaitAndPollContext_def split: select_case.splits option.splits prod.splits)
qed

lemma WaitAndPollContext_failed:
  "WaitAndPollContext env_failed poller0 =
     \<lparr>poller_after = poller0,
      returned = (zero_QueryResult, Some (OtherError ''connection refused'')),
      requested_at = Some 1000, returned_at = 1007\<rparr>"
  by (simp add: WaitAndPollContext_def select_wait_def env_failed_def poller0_def
      time_Until_def time_Sub_def minDuration_def maxDuration_def)

theorem WaitAndPollContext_error_witness:
  "response env_failed = (zero_QueryResult, Some (OtherError ''connection refused'')) \<and>
   cancelAt env_failed = None \<and>
   requested_at (WaitAndPollContext env_failed poller0) = Some 1000 \<and>
   returned (WaitAndPollContext env_failed poller0) =
     (zero_QueryResult, Some (OtherError ''connection refused'')) \<and>
   poller_after (WaitAndPollContext env_failed poller0) = poller0 \<and>
   nextPoll (poller_after (WaitAndPollContext env_failed poller0)) = nextPoll poller0"
proof -
  have resp: "response env_failed =
      (zero_QueryResult, Some (OtherError ''connection refused''))"
    and nc: "cancelAt env_failed = None"
    by (simp_all add: env_failed_def)
  from WaitAndPollContext_error [of env_failed zero_QueryResult
      "OtherError ''connection refused''" poller0] resp nc
  show ?thesis by (simp add: WaitAndPollContext_failed)
qed

section \<open>Properties of the aggregate printer\<close>

text \<open>
  Claim C4. The columns derived from the data are meant to be merged across calls
  without repeating a known name. The map of seen keys is fresh in every call, so the
  keys of the second call's events are appended again: after a first call on rows with
  the keys \<open>a\<close> and \<open>b\<close>, a second call on rows with the keys \<open>a\<close>, \<open>b\<close> and \<open>c\<close> leaves the
  columns \<open>a, b, a, b, c\<close>.
\<close>

theorem aggregate_columns_repeated:
  "columns (fst (aggregatePrinter_print runtime0
     (fst (aggregatePrinter_print runtime0 (newAggregatePrinter False)
        (snapshot_of [[(''a'', JNum 1)], [(''b'', JNum 1)]])))
     (snapshot_of [[(''a'', JNum 1)], [(''b'', JNum 1)], [(''c'', JNum 1)]]))) =
   [''a'', ''b'', ''a'', ''b'', ''c'']"
  by (simp add: aggregatePrinter_print_def select_columns_def newAggregatePrinter_def
      snapshot_of_def zero_Metadata_def seen_def Let_def)

section \<open>Properties of the search command\<close>

declare until_done.simps [simp del]

lemma until_done_no_err: "PrintErr m \<notin> set (fst (until_done progress json result ps))"
proof (induction progress json result ps rule: until_done.induct)
  case (1 progress json result ps)
  show ?case
  proof (cases "Done result")
    case True
    then show ?thesis by (subst until_done.simps) simp
  next
    case False
    show ?thesis
    proof (cases ps)
      case Nil
      then show ?thesis using False by (subst until_done.simps) (simp add: Let_def)
    next
      case (Cons p rest)
      obtain r e where p: "p = (r, e)" by (cases p)
      show ?thesis
      proof (cases e)
        case (Some err)
        then show ?thesis using False Cons p
          by (subst until_done.simps) (simp add: Let_def)
      next
        case None
        have "PrintErr m \<notin> set (fst (until_done progress json r rest))"
          using "1.IH" [OF False refl Cons _ refl] p None by simp
        then show ?thesis using False Cons p None
          by (subst until_done.simps) (simp add: Let_def split_beta)
      qed
    qed
  qed
qed

lemma live_loop_no_err: "PrintErr m \<notin> set (fst (live_loop agg ps))"
  by (induction agg ps rule: live_loop.induct) (auto simp: split_beta)

lemma search_session_no_err: "PrintErr m \<notin> set (fst (search_session fl created ps))"
proof (cases created)
  case (Inl err)
  then show ?thesis by (simp add: search_session_def)
next
  case (Inr jid)
  show ?thesis
  proof (cases ps)
    case Nil
    then show ?thesis using Inr by (simp add: search_session_def Let_def)
  next
    case (Cons p rest)
    obtain result e where p: "p = (result, e)" by (cases p)
    show ?thesis
    proof (cases e)
      case (Some err)
      then show ?thesis using Inr Cons p by (simp add: search_session_def Let_def)
    next
      case None
      let ?u = "until_done (\<not> (noProgress fl \<or> jsonProgress fl)) (jsonProgress fl) result rest"
      have u: "PrintErr m \<notin> set (fst ?u)" by (rule until_done_no_err)
      have l: "PrintErr m \<notin> set (fst (live_loop agg ps'))" for agg ps'
        by (rule live_loop_no_err)
      obtain a1 end1 where ue: "?u = (a1, end1)" by (cases ?u)
      then have a1: "PrintErr m \<notin> set a1" using u by simp
      show ?thesis
      proof (cases end1)
        case Exhausted
        then show ?thesis using Inr Cons p None ue a1
          by (simp add: search_session_def Let_def)
      next
        case (Failed err)
        then show ?thesis using Inr Cons p None ue a1
          by (simp add: search_session_def Let_def)
      next
        case (Finished fr)
        obtain final rest' where fr: "fr = (final, rest')" by (cases fr)
        show ?thesis using Inr Cons p None ue a1 Finished fr
            l [of "IsAggregate (Metadata result)" rest']
          by (auto simp: search_session_def Let_def split_beta split: option.splits)
      qed
    qed
  qed
qed

text \<open>
  Claim C9. When the session ends with \<^verbatim>\<open>context.Canceled\<close>, the command adds nothing to
  what the session did, no message goes to the error stream, and the exit status is 0.
\<close>

theorem Run_cancelled:
  assumes "search_session fl created ps = (acts, Some (Some Canceled))"
  shows "Run fl created ps = (acts, Some 0) \<and> (\<forall>m. PrintErr m \<notin> set acts)"
proof -
  have "PrintErr m \<notin> set acts" for m
    using search_session_no_err [of m fl created ps] assms by simp
  moreover have "Run fl created ps = (acts, Some 0)"
    using assms by (simp add: Run_def exitOnError_def)
  ultimately show ?thesis by simp
qed

lemma search_session_interrupted:
  "search_session flags0 (Inr ''job'') [(snapshot500, None), (zero_QueryResult, Some Canceled)] =
     ([BarStart, BarUpdate snapshot500, DeleteJob ''job''], Some (Some Canceled))"
  by (simp add: search_session_def flags0_def snapshot500_def Let_def until_done.simps)

theorem Run_cancelled_witness:
  "search_session flags0 (Inr ''job'') [(snapshot500, None), (zero_QueryResult, Some Canceled)] =
     ([BarStart, BarUpdate snapshot500, DeleteJob ''job''], Some (Some Canceled)) \<and>
   Run flags0 (Inr ''job'') [(snapshot500, None), (zero_QueryResult, Some Canceled)] =
     ([BarStart, BarUpdate snapshot500, DeleteJob ''job''], Some 0)"
  using Run_cancelled [OF search_session_interrupted] search_session_interrupted by simp

text \<open>
  Claim C8. With \<^verbatim>\<open>--json-progress\<close> and \<^verbatim>\<open>--live\<close>, a session whose first snapshot is
  done prints the JSON progress line for it, and then hands the snapshot fetched in
  live mode to the printer and prints no JSON progress line for it.
\<close>

theorem Run_json_progress_live:
  "Run \<lparr>live = True, noProgress = False, jsonProgress = True\<rparr> (Inr ''job'')
     [(snapshot_of [], None), (live_snapshot, None), (zero_QueryResult, Some Canceled)] =
   ([JsonProgress (snapshot_of []), PrinterPrint False live_snapshot, DeleteJob ''job''], Some 0)"
  by (simp add: Run_def search_session_def snapshot_of_def zero_Metadata_def Let_def
      exitOnError_def live_snapshot_def until_done.simps)

section \<open>Properties of the progress reporting\<close>

declare show_nat.simps [simp del]

lemma Update_idle:
  "TimeMillis (Metadata r) = 0 \<Longrightarrow>
   epsValue (Update rt b r) = epsValue b \<and> bpsValue (Update rt b r) = bpsValue b"
  by (simp add: Update_def)

lemma Update_busy:
  "TimeMillis (Metadata r) > 0 \<Longrightarrow>
   epsValue (Update rt b r) =
     Fin (throughput rt (ProcessedEvents (Metadata r)) (TimeMillis (Metadata r))) \<and>
   bpsValue (Update rt b r) =
     Fin (throughput rt (ProcessedBytes (Metadata r)) (TimeMillis (Metadata r)))"
  by (simp add: Update_def)

lemma foldl_Update_idle:
  "\<forall>r \<in> set rs. TimeMillis (Metadata r) = 0 \<Longrightarrow>
   epsValue (foldl (Update rt) b rs) = epsValue b \<and>
   bpsValue (foldl (Update rt) b rs) = bpsValue b"
proof (induction rs arbitrary: b)
  case Nil
  then show ?case by simp
next
  case (Cons r rs)
  then have "epsValue (foldl (Update rt) (Update rt b r) rs) = epsValue (Update rt b r) \<and>
      bpsValue (foldl (Update rt) (Update rt b r) rs) = bpsValue (Update rt b r)"
    by simp
  then show ?case using Cons.prems Update_idle [of r rt b] by simp
qed

lemma json_Marshal_idle:
  assumes "EpsValue' j = 0" "BpsValue' j = 0"
  shows "\<exists>pre post. json_Marshal rt j =
           pre @ quoted ''epsValue'' @ '':0,'' @ quoted ''bpsValue'' @ '':0,'' @ post"
proof -
  let ?pre = "''{'' @ quoted ''timestamp'' @ '':'' @ show_int (Timestamp' j) @
     '','' @ quoted ''startMillis'' @ '':'' @ show_int (StartMillis' j) @
     '','' @ quoted ''repo'' @ '':'' @ json_string rt (Repo' j) @
     '','' @ quoted ''queryString'' @ '':'' @ json_string rt (QueryString' j) @
     '','' @ quoted ''start'' @ '':'' @ show_nat (Start' j) @
     '','' @ quoted ''end'' @ '':'' @ show_nat (End' j) @
     '','' @ quoted ''totalWork'' @ '':'' @ show_nat (TotalWork' j) @
     '','' @ quoted ''workDone'' @ '':'' @ show_nat (WorkDone' j) @
     '','' @ quoted ''timeMillis'' @ '':'' @ show_nat (TimeMillis' j) @ '',''"
  let ?post = "quoted ''eventCount'' @ '':'' @ show_nat (EventCount' j) @
     '','' @ quoted ''done'' @ '':'' @ (if Done' j then ''true'' else ''false'') @ ''}''"
  have "json_Marshal rt j =
      ?pre @ quoted ''epsValue'' @ '':0,'' @ quoted ''bpsValue'' @ '':0,'' @ ?post"
    using assms by (simp add: json_Marshal_def encode_float_def)
  then show ?thesis by blast
qed

text \<open>
  Claim C5, as the code has it. While every snapshot given to the progress bar so far
  had \<^verbatim>\<open>TimeMillis = 0\<close>, its two throughput annotations are the empty string. The JSON
  progress record of a snapshot with \<^verbatim>\<open>TimeMillis = 0\<close> carries both throughput fields with
  the value zero, written \<^verbatim>\<open>"epsValue":0,"bpsValue":0\<close>. For a snapshot with
  \<^verbatim>\<open>TimeMillis > 0\<close> the bar and the record hold the processed quantity divided by
  \<^verbatim>\<open>TimeMillis\<close> and multiplied by 1000, in \<^verbatim>\<open>float64\<close> arithmetic.
\<close>

theorem throughput_rendering:
  "((\<forall>r \<in> set rs. TimeMillis (Metadata r) = 0) \<longrightarrow>
      additionalInfoEps rt (foldl (Update rt) newQueryResultProgressBar rs) = [] \<and>
      additionalInfoBps rt (foldl (Update rt) newQueryResultProgressBar rs) = []) \<and>
   (TimeMillis (Metadata r) = 0 \<longrightarrow>
      EpsValue' (progress_record rt now_ms r args startMillis) = 0 \<and>
      BpsValue' (progress_record rt now_ms r args startMillis) = 0 \<and>
      (\<exists>pre post. json_Marshal rt (progress_record rt now_ms r args startMillis) =
         pre @ quoted ''epsValue'' @ '':0,'' @ quoted ''bpsValue'' @ '':0,'' @ post)) \<and>
   (TimeMillis (Metadata r) > 0 \<longrightarrow>
      epsValue (Update rt b r) =
        Fin (throughput rt (ProcessedEvents (Metadata r)) (TimeMillis (Metadata r))) \<and>
      bpsValue (Update rt b r) =
        Fin (throughput rt (ProcessedBytes (Metadata r)) (TimeMillis (Metadata r))) \<and>
      EpsValue' (progress_record rt now_ms r args startMillis) =
        throughput rt (ProcessedEvents (Metadata r)) (TimeMillis (Metadata r)) \<and>
      BpsValue' (progress_record rt now_ms r args startMillis) =
        throughput rt (ProcessedBytes (Metadata r)) (TimeMillis (Metadata r)))"
proof (intro conjI impI)
  assume idle: "\<forall>r \<in> set rs. TimeMillis (Metadata r) = 0"
  from foldl_Update_idle [OF idle, of rt newQueryResultProgressBar]
  show "additionalInfoEps rt (foldl (Update rt) newQueryResultProgressBar rs) = []"
    and "additionalInfoBps rt (foldl (Update rt) newQueryResultProgressBar rs) = []"
    by (simp_all add: additionalInfoEps_def additionalInfoBps_def newQueryResultProgressBar_def)
next
  assume z: "TimeMillis (Metadata r) = 0"
  then show e: "EpsValue' (progress_record rt now_ms r args startMillis) = 0"
    and b: "BpsValue' (progress_record rt now_ms r args startMillis) = 0"
    by (simp_all add: progress_record_def)
  from e b show "\<exists>pre post. json_Marshal rt (progress_record rt now_ms r args startMillis) =
         pre @ quoted ''epsValue'' @ '':0,'' @ quoted ''bpsValue'' @ '':0,'' @ post"
    by (rule json_Marshal_idle)
next
  assume p: "TimeMillis (Metadata r) > 0"
  from Update_busy [OF p, of rt b]
  show "epsValue (Update rt b r) =
        Fin (throughput rt (ProcessedEvents (Metadata r)) (TimeMillis (Metadata r)))"
    and "bpsValue (Update rt b r) =
        Fin (throughput rt (ProcessedBytes (Metadata r)) (TimeMillis (Metadata r)))"
    by simp_all
  from p show "EpsValue' (progress_record rt now_ms r args startMillis) =
        throughput rt (ProcessedEvents (Metadata r)) (TimeMillis (Metadata r))"
    and "BpsValue' (progress_record rt now_ms r args startMillis) =
        throughput rt (ProcessedBytes (Metadata r)) (TimeMillis (Metadata r))"
    by (simp_all add: progress_record_def)
qed

lemma throughput_busy: "throughput runtime0 4000 2000 = 2000 \<and> throughput runtime0 8000 2000 = 4000"
  by (simp add: throughput_def runtime0_def)

theorem throughput_rendering_witness:
  "TimeMillis (Metadata snapshot500) = 0 \<and>
   additionalInfoEps runtime0 (foldl (Update runtime0) newQueryResultProgressBar [snapshot500]) = [] \<and>
   additionalInfoBps runtime0 (foldl (Update runtime0) newQueryResultProgressBar [snapshot500]) = [] \<and>
   EpsValue' (progress_record runtime0 5 snapshot500 [''repo'', ''count()''] 3) = 0 \<and>
   TimeMillis (Metadata snapshot_busy) = 2000 \<and>
   epsValue (Update runtime0 newQueryResultProgressBar snapshot_busy) = Fin 2000 \<and>
   bpsValue (Update runtime0 newQueryResultProgressBar snapshot_busy) = Fin 4000 \<and>
   EpsValue' (progress_record runtime0 5 snapshot_busy [''repo'', ''count()''] 3) = 2000"
proof -
  have z: "TimeMillis (Metadata snapshot500) = 0"
    by (simp add: snapshot500_def zero_Metadata_def)
  have m: "TimeMillis (Metadata snapshot_busy) = 2000"
    "ProcessedEvents (Metadata snapshot_busy) = 4000"
    "ProcessedBytes (Metadata snapshot_busy) = 8000"
    by (simp_all add: snapshot_busy_def zero_Metadata_def)
  from throughput_rendering [of "[snapshot500]" runtime0 snapshot500 5 "[''repo'', ''count()'']" 3]
    throughput_rendering [of "[]" runtime0 snapshot_busy 5 "[''repo'', ''count()'']" 3
      newQueryResultProgressBar]
  show ?thesis using z m throughput_busy by simp
qed

text \<open>
  The claim as the specification states it has the throughput absent from every
  progress output of a snapshot with \<^verbatim>\<open>TimeMillis = 0\<close>, and never the text \<^verbatim>\<open>0\<close>. The JSON
  record of such a snapshot:
\<close>

theorem progress_json_zero_throughput:
  \<open>printQueryResultProgressJson runtime0 1700000000123 snapshot500 [''repo'', ''count()'']
     1700000000000 =
   Some ''{"timestamp":1700000000123,"startMillis":1700000000000,"repo":"repo","queryString":"count()","start":0,"end":0,"totalWork":0,"workDone":0,"timeMillis":0,"epsValue":0,"bpsValue":0,"eventCount":0,"done":false}''\<close>
  by (simp add: printQueryResultProgressJson_def progress_record_def json_Marshal_def runtime0_def
     snapshot500_def zero_Metadata_def quoted_def encode_float_def show_int_def show_nat.simps)

section \<open>The format example\<close>

lemma newEventListPrinter_example:
  "newEventListPrinter ''{@timestamp:40} {@rawstring}'' =
   \<lparr>printedIds = Map.empty, printFields = [''@timestamp'', ''@rawstring''], fmt = ''%40s %s''\<rparr>"
  by (simp add: newEventListPrinter_def match_here_def split_field_def)

lemma timestamp_printer_example:
  "timestamp_printer rt (JNum 1700000000000) = (Format_RFC3339Nano rt (1700000000, 0), True)"
proof -
  have i: "int64_of_float64 rt 1700000000000 = 1700000000000"
    by (simp add: int64_of_float64_def)
  have q: "quo 1700000000000 1000 = 1700000000" "rem 1700000000000 1000 = 0"
    by (simp_all add: quo_def rem_def)
  have u: "time_Unix 1700000000 0 = (1700000000, 0)"
    by (simp add: time_Unix_def)
  show ?thesis
    unfolding timestamp_printer_def Let_def by (simp add: i q u)
qed

lemma printers_example:
  "map (\<lambda>printer. printer hello_event)
     (printers rt (newEventListPrinter ''{@timestamp:40} {@rawstring}'')) =
   [Format_RFC3339Nano rt (1700000000, 0), ''hello'']"
  unfolding newEventListPrinter_example printers_def Let_def
  by (simp add: fieldPrinters_def hello_event_def index_def timestamp_printer_example)

lemma doPrintf_example:
  "doPrintf (''%40s %s'' @ newline) [ts, ''hello''] =
   Some (replicate (40 - RuneCount ts) CHR '' '' @ ts @ '' hello'' @ newline)"
  by (simp add: newline_def parse_verb_def verb_of_def is_flag_def is_digit_def read_nat_def
      padString_def)

lemma printEventFunc_example:
  "printEventFunc rt (newEventListPrinter ''{@timestamp:40} {@rawstring}'') hello_event =
   Some (replicate (40 - RuneCount (Format_RFC3339Nano rt (1700000000, 0))) CHR '' '' @
         Format_RFC3339Nano rt (1700000000, 0) @ '' hello'' @ newline)"
proof -
  have "fmt (newEventListPrinter ''{@timestamp:40} {@rawstring}'') = ''%40s %s''"
    by (simp add: newEventListPrinter_example)
  then show ?thesis
    unfolding printEventFunc_def printers_example by (simp only: doPrintf_example)
qed

text \<open>The instant 1700000000 s is 14 November 2023, 22:13:20 UTC.\<close>

lemma civil_from_days_example: "civil_from_days 19675 = (2023, 11, 14)"
  unfolding civil_from_days_def Let_def by simp

lemma appendInt_examples:
  "appendInt 2023 4 = ''2023''" "appendInt 11 2 = ''11''" "appendInt 14 2 = ''14''"
  "appendInt 22 2 = ''22''" "appendInt 23 2 = ''23''" "appendInt 13 2 = ''13''"
  "appendInt 20 2 = ''20''" "appendInt 1 2 = ''01''" "appendInt 0 2 = ''00''"
  "appendInt 0 9 = ''000000000''"
proof -
  have s: "show_nat 2023 = ''2023''" "show_nat 11 = ''11''" "show_nat 14 = ''14''"
    "show_nat 22 = ''22''" "show_nat 23 = ''23''" "show_nat 13 = ''13''" "show_nat 20 = ''20''"
    "show_nat 0 = ''0''" "show_nat (Suc 0) = ''1''"
    by (simp_all add: show_nat.simps)
  have r: "replicate 8 CHR ''0'' = ''00000000''"
    by (simp add: eval_nat_numeral)
  show "appendInt 2023 4 = ''2023''" "appendInt 11 2 = ''11''" "appendInt 14 2 = ''14''"
    "appendInt 22 2 = ''22''" "appendInt 23 2 = ''23''" "appendInt 13 2 = ''13''"
    "appendInt 20 2 = ''20''" "appendInt 1 2 = ''01''" "appendInt 0 2 = ''00''"
    "appendInt 0 9 = ''000000000''"
    by (simp_all add: appendInt_def s r)
qed

lemma appendNano_zero: "appendNano 0 = []"
  unfolding appendNano_def Let_def by (simp add: appendInt_examples)

lemma appendZone_examples: "appendZone 0 = ''Z''" "appendZone 3600 = ''+01:00''"
proof -
  have q: "quo 3600 60 = 60" "quo 60 60 = 1" "rem 60 60 = 0"
    by (simp_all add: quo_def rem_def)
  show "appendZone 0 = ''Z''"
    by (simp add: appendZone_def)
  show "appendZone 3600 = ''+01:00''"
    unfolding appendZone_def Let_def by (simp add: q appendInt_examples)
qed

lemma Format_example_utc:
  "Format_RFC3339Nano runtime0 (1700000000, 0) = ''2023-11-14T22:13:20Z''"
proof -
  have z: "zone_offset runtime0 1700000000 = 0"
    by (simp add: runtime0_def)
  show ?thesis
    unfolding Format_RFC3339Nano_def Let_def
    by (simp add: z civil_from_days_example appendInt_examples appendNano_zero
        appendZone_examples)
qed

lemma Format_example_cet:
  "Format_RFC3339Nano runtime_cet (1700000000, 0) = ''2023-11-14T23:13:20+01:00''"
proof -
  have z: "zone_offset runtime_cet 1700000000 = 3600"
    by (simp add: runtime_cet_def)
  show ?thesis
    unfolding Format_RFC3339Nano_def Let_def
    by (simp add: z civil_from_days_example appendInt_examples appendNano_zero
        appendZone_examples)
qed

lemma RuneCount_examples:
  "RuneCount ''2023-11-14T22:13:20Z'' = 20" "RuneCount ''2023-11-14T23:13:20+01:00'' = 25"
  by (simp_all add: RuneCount_def)

lemma replicate_examples:
  "replicate 20 CHR '' '' = ''                    ''"
  "replicate 15 CHR '' '' = ''               ''"
  by (simp_all add: eval_nat_numeral)

text \<open>
  Claim C7. The template \<^verbatim>\<open>{@timestamp:40} {@rawstring}\<close> is compiled to the format
  \<^verbatim>\<open>%40s %s\<close>, and \<^verbatim>\<open>%40s\<close> writes its operand right-aligned: the event with
  \<^verbatim>\<open>@timestamp\<close> 1700000000000 and \<^verbatim>\<open>@rawstring\<close> \<^verbatim>\<open>hello\<close> is written as the RFC 3339
  timestamp of the instant in the local zone, padded on its left with spaces to 40
  characters, then one space, \<^verbatim>\<open>hello\<close> and a newline. In UTC the timestamp has 20
  characters and follows 20 spaces; one hour east of UTC it has 25 and follows 15.
\<close>

theorem printEventFunc_hello:
  "printEventFunc rt (newEventListPrinter ''{@timestamp:40} {@rawstring}'') hello_event =
     Some (replicate (40 - RuneCount (Format_RFC3339Nano rt (1700000000, 0))) CHR '' '' @
           Format_RFC3339Nano rt (1700000000, 0) @ '' hello'' @ newline) \<and>
   printEventFunc runtime0 (newEventListPrinter ''{@timestamp:40} {@rawstring}'') hello_event =
     Some (''                    2023-11-14T22:13:20Z hello'' @ newline) \<and>
   printEventFunc runtime_cet (newEventListPrinter ''{@timestamp:40} {@rawstring}'') hello_event =
     Some (''               2023-11-14T23:13:20+01:00 hello'' @ newline)"
  by (simp add: printEventFunc_example Format_example_utc Format_example_cet RuneCount_examples
      replicate_examples)

text \<open>
  The claim as the specification states it has the timestamp padded on its right: the
  timestamp first, then the spaces that fill 40 characters, one more space and
  \<^verbatim>\<open>hello\<close>. The output in UTC is neither that text nor that text with a newline.
\<close>

theorem printEventFunc_hello_not_right_padded:
  "printEventFunc runtime0 (newEventListPrinter ''{@timestamp:40} {@rawstring}'') hello_event =
     Some (''                    2023-11-14T22:13:20Z hello'' @ newline) \<and>
   printEventFunc runtime0 (newEventListPrinter ''{@timestamp:40} {@rawstring}'') hello_event \<noteq>
     Some (''2023-11-14T22:13:20Z                     hello'' @ newline) \<and>
   printEventFunc runtime0 (newEventListPrinter ''{@timestamp:40} {@rawstring}'') hello_event \<noteq>
     Some ''2023-11-14T22:13:20Z                     hello''"
  by (simp add: printEventFunc_example Format_example_utc RuneCount_examples
      replicate_examples newline_def)

end
